theory Spec2Isabelle
  imports Complex_Main
begin

section \<open>Strings as the ranking code uses them\<close>

text \<open>
  The sources are \<^verbatim>\<open>api.py\<close> (serving path) and \<^verbatim>\<open>evaluate_and_predict.py\<close>
  (offline evaluation); the helper functions and the ranking body are textually the
  same in both. Strings are modelled as lists of ASCII characters. Scores are exact
  rationals: a decimal literal of the source denotes its decimal value, and the
  rounding of binary floating point is not part of the model.
\<close>

definition upper_lower :: "(char \<times> char) list" where
  "upper_lower = zip ''ABCDEFGHIJKLMNOPQRSTUVWXYZ'' ''abcdefghijklmnopqrstuvwxyz''"

definition lower_char :: "char \<Rightarrow> char" where
  "lower_char c = (case map_of upper_lower c of Some d \<Rightarrow> d | None \<Rightarrow> c)"

text \<open>\<^verbatim>\<open>s.lower()\<close>\<close>

definition lower :: "string \<Rightarrow> string" where
  "lower s = map lower_char s"

text \<open>The ASCII characters for which \<^verbatim>\<open>str.isspace\<close> holds; they are also what
  \<^verbatim>\<open>\s\<close> matches.\<close>

definition is_space :: "char \<Rightarrow> bool" where
  "is_space c = (c \<in> set [CHR 0x09, CHR 0x0A, CHR 0x0B, CHR 0x0C, CHR 0x0D,
                            CHR 0x1C, CHR 0x1D, CHR 0x1E, CHR 0x1F, CHR 0x20])"

text \<open>\<^verbatim>\<open>s.strip()\<close>\<close>

definition strip :: "string \<Rightarrow> string" where
  "strip s = rev (dropWhile is_space (rev (dropWhile is_space s)))"

text \<open>\<^verbatim>\<open>s.split()\<close>: the maximal runs of non-whitespace characters, in order.\<close>

fun split_acc :: "string \<Rightarrow> string \<Rightarrow> string list" where
  "split_acc cur [] = (if cur = [] then [] else [cur])"
| "split_acc cur (c # cs) =
     (if is_space c then (if cur = [] then split_acc [] cs else cur # split_acc [] cs)
      else split_acc (cur @ [c]) cs)"

definition split :: "string \<Rightarrow> string list" where
  "split s = split_acc [] s"

text \<open>\<^verbatim>\<open>s.startswith(p)\<close>\<close>

fun startswith :: "string \<Rightarrow> string \<Rightarrow> bool" where
  "startswith s [] = True"
| "startswith [] (p # ps) = False"
| "startswith (c # cs) (p # ps) = (c = p \<and> startswith cs ps)"

text \<open>\<^verbatim>\<open>sub in s\<close> on strings: \<open>sub\<close> occurs in \<open>s\<close> as a contiguous piece.\<close>

fun str_in :: "string \<Rightarrow> string \<Rightarrow> bool" where
  "str_in sub [] = (sub = [])"
| "str_in sub (c # cs) = (startswith (c # cs) sub \<or> str_in sub cs)"

text \<open>\<^verbatim>\<open>s.endswith(p)\<close>\<close>

definition endswith :: "string \<Rightarrow> string \<Rightarrow> bool" where
  "endswith s p = startswith (rev s) (rev p)"

section \<open>Duration parsing\<close>

text \<open>
  Every regular expression of the source has the shape
  \<^verbatim>\<open>(\d+)\s*(?:u1|u2|...)\<close>, and only group 1 is read. A match that starts at a
  given position must take the whole run of digits there (the character after a
  shorter run is a digit, which is neither whitespace nor the first letter of a unit)
  and the whole run of whitespace after it, so backtracking never finds a match that
  the greedy attempt misses. \<open>match_here\<close> is the attempt at one position and
  \<open>re_search\<close> tries the positions from left to right, as \<^verbatim>\<open>re.search\<close> does; the
  result is \<^verbatim>\<open>int(match.group(1))\<close>, or \<open>None\<close> when there is no match.
\<close>

definition is_digit :: "char \<Rightarrow> bool" where
  "is_digit c = (c \<in> set ''0123456789'')"

definition digit_val :: "char \<Rightarrow> int" where
  "digit_val c = (case map_of (zip ''0123456789'' [0, 1, 2, 3, 4, 5, 6, 7, 8, 9]) c of
                    Some d \<Rightarrow> d | None \<Rightarrow> 0)"

definition int_of_digits :: "string \<Rightarrow> int" where
  "int_of_digits ds = foldl (\<lambda>a c. 10 * a + digit_val c) 0 ds"

definition match_here :: "string list \<Rightarrow> string \<Rightarrow> int option" where
  "match_here units s =
     (let ds = takeWhile is_digit s;
          rest = dropWhile is_space (dropWhile is_digit s)
      in if ds \<noteq> [] \<and> list_ex (startswith rest) units
         then Some (int_of_digits ds) else None)"

fun re_search :: "string list \<Rightarrow> string \<Rightarrow> int option" where
  "re_search units [] = None"
| "re_search units (c # cs) =
     (case match_here units (c # cs) of
        Some v \<Rightarrow> Some v
      | None \<Rightarrow> re_search units cs)"

text \<open>
  The \<^verbatim>\<open>patterns\<close> list of \<^verbatim>\<open>extract_duration_constraint\<close>: each entry is the text
  of the regular expression (which the function inspects to decide whether the value
  is in hours) together with the unit alternatives read off that text.
\<close>

definition patterns :: "(string \<times> string list) list" where
  "patterns =
     [(CHR ''('' # CHR 0x5C # ''d+)'' @ CHR 0x5C # ''s*(?:min|minute|minutes)'',
         [''min'', ''minute'', ''minutes'']),
      (CHR ''('' # CHR 0x5C # ''d+)'' @ CHR 0x5C # ''s*(?:hr|hour|hours)'',
         [''hr'', ''hour'', ''hours'']),
      (CHR ''('' # CHR 0x5C # ''d+)'' @ CHR 0x5C # ''s*(?:h)'',
         [''h''])]"

fun pattern_loop :: "(string \<times> string list) list \<Rightarrow> string \<Rightarrow> int option" where
  "pattern_loop [] q = None"
| "pattern_loop ((pattern, units) # rest) q =
     (case re_search units (lower q) of
        Some v \<Rightarrow>
          (if str_in ''hour'' pattern \<or> str_in ''hr'' pattern \<or> endswith pattern ''h)''
           then Some (v * 60) else Some v)
      | None \<Rightarrow> pattern_loop rest q)"

definition extract_duration_constraint :: "string \<Rightarrow> int option" where
  "extract_duration_constraint query = pattern_loop patterns query"

definition parse_duration :: "string \<Rightarrow> int" where
  "parse_duration duration_str =
     (if duration_str = [] then 999
      else
        let s = lower duration_str;
            total0 = 0;
            total1 = (case re_search [''hr'', ''hour''] s of
                        Some v \<Rightarrow> total0 + v * 60 | None \<Rightarrow> total0);
            total2 = (case re_search [''min'', ''minute''] s of
                        Some v \<Rightarrow> total1 + v | None \<Rightarrow> total1)
        in if total2 > 0 then total2 else 999)"

section \<open>Skill expansion\<close>

definition SKILL_SYNONYMS :: "(string \<times> string list) list" where
  "SKILL_SYNONYMS =
     [(''python'', [''python'', ''py'', ''python3'']),
      (''java'', [''java'', ''j2ee'', ''spring'']),
      (''javascript'', [''javascript'', ''js'', ''node'', ''nodejs'', ''react'', ''angular'', ''vue'']),
      (''sql'', [''sql'', ''mysql'', ''postgresql'', ''database'', ''db'']),
      (''data'', [''data'', ''analytics'', ''analysis'']),
      (''excel'', [''excel'', ''spreadsheet'', ''ms excel'']),
      (''communication'', [''communication'', ''verbal'', ''written'', ''presentation'']),
      (''leadership'', [''leadership'', ''management'', ''manager'', ''lead'']),
      (''teamwork'', [''teamwork'', ''collaboration'', ''team'', ''collaborative''])]"

text \<open>
  The Python \<^verbatim>\<open>set\<close> named \<^verbatim>\<open>expanded\<close> is a duplicate-free list in insertion
  order; \<^verbatim>\<open>list(expanded)\<close> may return the elements in any order, so statements about
  the result are made on its set of elements.
\<close>

definition set_add :: "string \<Rightarrow> string list \<Rightarrow> string list" where
  "set_add x xs = (if x \<in> set xs then xs else xs @ [x])"

definition set_update :: "string list \<Rightarrow> string list \<Rightarrow> string list" where
  "set_update ys xs = foldl (\<lambda>acc y. set_add y acc) xs ys"

fun synonyms_loop :: "string \<Rightarrow> (string \<times> string list) list \<Rightarrow> string list \<Rightarrow> string list" where
  "synonyms_loop skill_lower [] expanded = expanded"
| "synonyms_loop skill_lower ((key, synonyms) # items) expanded =
     synonyms_loop skill_lower items
       (if skill_lower \<in> set synonyms then set_update synonyms expanded else expanded)"

fun expand_loop :: "string list \<Rightarrow> string list \<Rightarrow> string list" where
  "expand_loop [] expanded = expanded"
| "expand_loop (skill # rest) expanded =
     expand_loop rest
       (synonyms_loop (lower skill) SKILL_SYNONYMS (set_add (lower skill) expanded))"

definition expand_skills :: "string list \<Rightarrow> string list" where
  "expand_skills skills = expand_loop skills []"

section \<open>Candidates, query context and scoring\<close>

text \<open>
  One entry of \<^verbatim>\<open>all_results\<close>, with the keys the ranking reads. The retrieval
  result carries no \<^verbatim>\<open>duration\<close> key, and \<^verbatim>\<open>res.get('duration', '')\<close> reads the
  empty string then: \<open>duration\<close> is that string.
\<close>

record assessment =
  name :: string
  url :: string
  description :: string
  test_types :: "string list"
  job_level :: string
  skills :: "string list"
  duration :: string
  similarity_score :: rat

text \<open>An entry after scoring: the dictionary with the three keys the loop adds.\<close>

record scored =
  res :: assessment
  final_score :: rat
  keyword_score :: rat
  metadata_score :: rat

text \<open>
  The local variables the ranking body reads from the query: \<^verbatim>\<open>expanded_skills\<close>,
  \<^verbatim>\<open>llm_job_level\<close> and \<^verbatim>\<open>llm_role\<close> (both already lower-cased, empty when
  absent), \<^verbatim>\<open>llm_test_types\<close> as the analyser returned them, and
  \<^verbatim>\<open>duration_constraint\<close>.
\<close>

record query_context =
  expanded_skills :: "string list"
  llm_job_level :: string
  llm_test_types :: "string list"
  llm_role :: string
  duration_constraint :: "int option"

text \<open>Lines 223--226 of \<^verbatim>\<open>api.py\<close>: the default and the silent addition of P.\<close>

definition default_test_types :: "string list \<Rightarrow> string list" where
  "default_test_types tts =
     (if tts = [] then [''K'', ''P'']
      else if ''K'' \<in> set tts \<and> ''P'' \<notin> set tts then tts @ [''P'']
      else tts)"

fun skill_loop :: "assessment \<Rightarrow> string list \<Rightarrow> rat \<Rightarrow> rat" where
  "skill_loop r [] ks = ks"
| "skill_loop r (skill # rest) ks =
     skill_loop r rest
       (if str_in skill (lower (name r)) then ks + 1.8
        else if skill \<in> set (map (\<lambda>s. strip (lower s)) (skills r)) then ks + 1.2
        else if str_in skill (lower (description r)) then ks + 0.6
        else ks)"

fun role_loop :: "string \<Rightarrow> string list \<Rightarrow> rat \<Rightarrow> rat" where
  "role_loop assessment_name [] ks = ks"
| "role_loop assessment_name (part # rest) ks =
     role_loop assessment_name rest
       (if str_in part assessment_name then ks + 0.9 else ks)"

definition compute_keyword_score :: "query_context \<Rightarrow> assessment \<Rightarrow> rat" where
  "compute_keyword_score ctx r =
     (let ks = skill_loop r (expanded_skills ctx) 0
      in if llm_role ctx \<noteq> []
         then role_loop (lower (name r)) (filter (\<lambda>p. length p > 3) (split (llm_role ctx))) ks
         else ks)"

definition compute_metadata_score :: "string list \<Rightarrow> query_context \<Rightarrow> assessment \<Rightarrow> rat" where
  "compute_metadata_score tts ctx r =
     (let res_types = test_types r;
          has_k = ''K'' \<in> set res_types;
          has_p = ''P'' \<in> set res_types;
          any_required = list_ex (\<lambda>t. t \<in> set tts) res_types;
          m0 = 0;
          m1 = (if has_k \<or> has_p
                then (if any_required then m0 + 0.3 + 0.2 else m0 + 0.3)
                else if any_required then m0 + 0.2 else m0);
          m2 = (if llm_job_level ctx \<noteq> [] \<and> str_in (llm_job_level ctx) (lower (job_level r))
                then m1 + 0.3 else m1);
          m3 = (case duration_constraint ctx of
                  None \<Rightarrow> m2
                | Some dc \<Rightarrow>
                    if dc \<noteq> 0 \<and> of_int (parse_duration (duration r)) \<le> of_int dc * (1.2 :: rat)
                    then m2 + 0.4 else m2)
      in m3)"

definition compute_final_score :: "rat \<Rightarrow> rat \<Rightarrow> rat \<Rightarrow> rat" where
  "compute_final_score semantic_score ks ms =
     semantic_score * 0.35 + min ks 3.5 * 0.45 / 3.5 + ms * 0.20"

text \<open>The body of the scoring loop for one entry.\<close>

definition score_result :: "string list \<Rightarrow> query_context \<Rightarrow> assessment \<Rightarrow> scored" where
  "score_result tts ctx r =
     (let semantic_score = similarity_score r;
          ks = compute_keyword_score ctx r;
          ms = compute_metadata_score tts ctx r
      in \<lparr>res = r, final_score = compute_final_score semantic_score ks ms,
          keyword_score = ks, metadata_score = ms\<rparr>)"

definition scored_results :: "string list \<Rightarrow> query_context \<Rightarrow> assessment list \<Rightarrow> scored list" where
  "scored_results tts ctx all_results = map (score_result tts ctx) all_results"

section \<open>Balancing and selection\<close>

text \<open>\<^verbatim>\<open>sorted(xs, key=lambda x: x['final_score'], reverse=True)\<close>: a stable sort,
  highest score first, entries of equal score in their original order.\<close>

definition sorted_desc :: "scored list \<Rightarrow> scored list" where
  "sorted_desc xs = sort_key (\<lambda>x. - final_score x) xs"

definition urls :: "scored list \<Rightarrow> string list" where
  "urls xs = map (\<lambda>x. url (res x)) xs"

fun bucket_loop :: "scored list \<Rightarrow> scored list \<times> scored list \<times> scored list
                      \<Rightarrow> scored list \<times> scored list \<times> scored list" where
  "bucket_loop [] (best_k, best_p, best_other) = (best_k, best_p, best_other)"
| "bucket_loop (r # rest) (best_k, best_p, best_other) =
     (let res_types = test_types (res r);
          is_k = ''K'' \<in> set res_types;
          is_p = ''P'' \<in> set res_types;
          res_id = url (res r);
          best_k' = (if is_k \<and> res_id \<notin> set (urls best_k) then best_k @ [r] else best_k);
          best_p' = (if is_p \<and> res_id \<notin> set (urls best_p) then best_p @ [r] else best_p);
          best_other' = (if \<not> is_k \<and> \<not> is_p \<and> res_id \<notin> set (urls best_other)
                         then best_other @ [r] else best_other)
      in bucket_loop rest (best_k', best_p', best_other'))"

text \<open>One round of the interleaving loop, for index \<open>i\<close>.\<close>

definition interleave_step :: "nat \<Rightarrow> scored list \<Rightarrow> scored list \<Rightarrow> nat \<Rightarrow> scored list \<Rightarrow> scored list" where
  "interleave_step n best_k best_p i final =
     (let final1 = (if i < length best_k \<and> length final < n then final @ [best_k ! i] else final);
          final2 = (if i < length best_p \<and> length final1 < n then final1 @ [best_p ! i] else final1)
      in final2)"

definition interleave :: "nat \<Rightarrow> scored list \<Rightarrow> scored list \<Rightarrow> scored list" where
  "interleave n best_k best_p =
     foldl (\<lambda>final i. interleave_step n best_k best_p i final) []
           [0 ..< max (length best_k) (length best_p)]"

definition final_recommendations :: "string list \<Rightarrow> nat \<Rightarrow> scored list \<Rightarrow> scored list \<Rightarrow> scored list" where
  "final_recommendations tts n best_k best_p =
     (let llm_wants_k = ''K'' \<in> set tts;
          llm_wants_p = ''P'' \<in> set tts
      in if llm_wants_k \<and> llm_wants_p then interleave n best_k best_p
         else if llm_wants_k then take n best_k
         else if llm_wants_p then take n best_p
         else take (n div 2) best_k @ take (n div 2) best_p)"

text \<open>\<^verbatim>\<open>{rec['url']: rec for rec in recs}\<close>: a key keeps the position of its first
  insertion and the value of its last.\<close>

fun dict_put :: "(string \<times> scored) list \<Rightarrow> string \<Rightarrow> scored \<Rightarrow> (string \<times> scored) list" where
  "dict_put [] k v = [(k, v)]"
| "dict_put ((k', v') # d) k v =
     (if k' = k then (k, v) # d else (k', v') # dict_put d k v)"

definition unique_by_url :: "scored list \<Rightarrow> scored list" where
  "unique_by_url recs = map snd (foldl (\<lambda>d r. dict_put d (url (res r)) r) [] recs)"

fun backfill_loop :: "nat \<Rightarrow> scored list \<Rightarrow> scored list \<Rightarrow> scored list" where
  "backfill_loop n [] unique_recs = unique_recs"
| "backfill_loop n (r # rest) unique_recs =
     (if length unique_recs \<ge> n then unique_recs
      else if url (res r) \<notin> set (urls unique_recs) then backfill_loop n rest (unique_recs @ [r])
      else backfill_loop n rest unique_recs)"

definition backfill :: "nat \<Rightarrow> scored list \<Rightarrow> scored list \<Rightarrow> scored list" where
  "backfill n best_other unique_recs =
     (if length unique_recs < n then backfill_loop n best_other unique_recs else unique_recs)"

text \<open>
  The ranking call: the body of \<^verbatim>\<open>_recommend_assessments\<close> from line 223 to the
  computation of \<^verbatim>\<open>results\<close> (and of \<^verbatim>\<open>get_recommendations_local\<close> from line 110,
  which returns the URLs of the same list). \<open>recommend_body\<close> is the part after the
  required test types have been completed (lines 228--326), with those types as
  \<open>tts\<close>. \<open>n_results\<close> is a natural number: the serving path validates it to lie
  between 1 and 10.
\<close>

definition recommend_body :: "string list \<Rightarrow> query_context \<Rightarrow> assessment list \<Rightarrow> nat \<Rightarrow> scored list" where
  "recommend_body tts ctx all_results n_results =
     (let sorted_results = sorted_desc (scored_results tts ctx all_results);
          (best_k, best_p, best_other) = bucket_loop sorted_results ([], [], []);
          recs = final_recommendations tts n_results best_k best_p;
          unique_recs = backfill n_results best_other (unique_by_url recs)
      in take n_results (sorted_desc unique_recs))"

definition recommend :: "query_context \<Rightarrow> assessment list \<Rightarrow> nat \<Rightarrow> scored list" where
  "recommend ctx all_results n_results =
     recommend_body (default_test_types (llm_test_types ctx)) ctx all_results n_results"

definition get_recommendations_local :: "query_context \<Rightarrow> assessment list \<Rightarrow> nat \<Rightarrow> string list" where
  "get_recommendations_local ctx all_results n_results = urls (recommend ctx all_results n_results)"

section \<open>Specification-level notions and example data\<close>

text \<open>What one skill contributes to the keyword score, as the specification words it:
  the single highest tier that matches.\<close>

definition skill_tier :: "assessment \<Rightarrow> string \<Rightarrow> rat" where
  "skill_tier r skill =
     (if str_in skill (lower (name r)) then 1.8
      else if skill \<in> set (map (\<lambda>s. strip (lower s)) (skills r)) then 1.2
      else if str_in skill (lower (description r)) then 0.6
      else 0)"

text \<open>The category part of the metadata score.\<close>

definition category_score :: "string list \<Rightarrow> assessment \<Rightarrow> rat" where
  "category_score tts r =
     (if ''K'' \<in> set (test_types r) \<or> ''P'' \<in> set (test_types r) then 0.3 else 0)
     + (if list_ex (\<lambda>t. t \<in> set tts) (test_types r) then 0.2 else 0)"

text \<open>The sum of the hour match (times 60) and the minute match of a duration text,
  a missing match counting as 0.\<close>

definition matched_total :: "string \<Rightarrow> int" where
  "matched_total s =
     (case re_search [''hr'', ''hour''] (lower s) of Some v \<Rightarrow> v * 60 | None \<Rightarrow> 0)
     + (case re_search [''min'', ''minute''] (lower s) of Some v \<Rightarrow> v | None \<Rightarrow> 0)"

text \<open>Everything that one lower-cased skill brings into the expansion: itself and the
  members of every synonym group that lists it.\<close>

definition related :: "string \<Rightarrow> string set" where
  "related s = insert s (\<Union> {set synonyms | key synonyms.
                                 (key, synonyms) \<in> set SKILL_SYNONYMS \<and> s \<in> set synonyms})"

text \<open>The invariant of the dictionary built by \<open>unique_by_url\<close>.\<close>

definition dict_ok :: "scored list \<Rightarrow> (string \<times> scored) list \<Rightarrow> bool" where
  "dict_ok recs d =
     (distinct (map fst d) \<and> list_all (\<lambda>(k, v). v \<in> set recs \<and> k = url (res v)) d)"

text \<open>Example data: a candidate with a name, a URL, test types and a similarity, and a
  query context with nothing but required test types.\<close>

definition candidate :: "string \<Rightarrow> string \<Rightarrow> string list \<Rightarrow> rat \<Rightarrow> assessment" where
  "candidate nm u tts sem =
     \<lparr>name = nm, url = u, description = [], test_types = tts, job_level = [],
      skills = [], duration = [], similarity_score = sem\<rparr>"

definition bare_context :: "string list \<Rightarrow> query_context" where
  "bare_context tts =
     \<lparr>expanded_skills = [], llm_job_level = [], llm_test_types = tts, llm_role = [],
      duration_constraint = None\<rparr>"

text \<open>The non-empty suffixes of a text: one for every position at which a search of
  the text can start.\<close>

fun tails :: "string \<Rightarrow> string list" where
  "tails [] = []"
| "tails (c # cs) = (c # cs) # tails cs"

section \<open>Facts about the string functions\<close>

lemma lower_append: "lower (a @ b) = lower a @ lower b"
  by (simp add: lower_def)

lemma lower_char_cases:
  "lower_char c = c \<or> lower_char c \<in> set ''abcdefghijklmnopqrstuvwxyz''"
  by (simp add: lower_char_def upper_lower_def)

lemma lower_char_idem: "lower_char (lower_char c) = lower_char c"
proof (cases "lower_char c = c")
  case True
  then show ?thesis by simp
next
  case False
  then have "lower_char c \<in> set ''abcdefghijklmnopqrstuvwxyz''"
    using lower_char_cases [of c] by blast
  then show ?thesis
    by (auto simp: lower_char_def upper_lower_def)
qed

lemma lower_idem: "lower (lower s) = lower s"
  by (simp add: lower_def lower_char_idem)

section \<open>Duration parsing: results\<close>

lemma one_hour_match:
  "re_search [''hr'', ''hour'', ''hours''] (''1 hour'' @ post) = Some 1"
  by (simp add: match_here_def is_digit_def is_space_def int_of_digits_def digit_val_def)

lemma lower_one_hour: "lower ''1 hour'' = ''1 hour''"
  by (simp add: lower_def lower_char_def upper_lower_def)

lemma pattern_loop_patterns:
  "pattern_loop patterns q =
     (case re_search [''min'', ''minute'', ''minutes''] (lower q) of
        Some v \<Rightarrow> Some v
      | None \<Rightarrow>
          (case re_search [''hr'', ''hour'', ''hours''] (lower q) of
             Some v \<Rightarrow> Some (v * 60)
           | None \<Rightarrow>
               (case re_search [''h''] (lower q) of
                  Some v \<Rightarrow> Some (v * 60)
                | None \<Rightarrow> None)))"
  by (simp add: patterns_def endswith_def split: option.splits)

lemma re_search_skip_tails:
  assumes "list_all (\<lambda>s. match_here units (lower (s @ x)) = None) (tails pre)"
  shows "re_search units (lower (pre @ x)) = re_search units (lower x)"
  using assms
proof (induction pre)
  case Nil
  then show ?case by simp
next
  case (Cons c pre)
  from Cons.prems
  have here: "match_here units (lower_char c # map lower_char pre @ map lower_char x) = None"
    and rest: "list_all (\<lambda>s. match_here units (lower (s @ x)) = None) (tails pre)"
    by (simp_all add: lower_def)
  have "re_search units (lower ((c # pre) @ x)) = re_search units (lower (pre @ x))"
    by (simp add: lower_def here)
  with Cons.IH [OF rest] show ?case
    by simp
qed

lemma one_hour_leftmost:
  assumes "list_all (\<lambda>s. match_here [''hr'', ''hour'', ''hours''] (lower (s @ ''1 hour'' @ post)) = None)
             (tails pre)"
  shows "re_search [''hr'', ''hour'', ''hours''] (lower (pre @ ''1 hour'' @ post)) = Some 1"
proof -
  have "re_search [''hr'', ''hour'', ''hours''] (lower (pre @ ''1 hour'' @ post))
          = re_search [''hr'', ''hour'', ''hours''] (lower (''1 hour'' @ post))"
    using assms by (rule re_search_skip_tails)
  then show ?thesis
    by (simp only: lower_append lower_one_hour one_hour_match)
qed

text \<open>
  Claim C8, as stated, fails in its last part. The query \<^verbatim>\<open>2 hr or 1 hour\<close> contains
  \<^verbatim>\<open>1 hour\<close> and has no minutes pattern, but the search for the hours pattern finds
  \<^verbatim>\<open>2 hr\<close> first and the result is 120, not 60.
\<close>

theorem one_hour_not_first_counterexample:
  "str_in ''1 hour'' ''2 hr or 1 hour''
   \<and> re_search [''min'', ''minute'', ''minutes''] (lower ''2 hr or 1 hour'') = None
   \<and> extract_duration_constraint ''2 hr or 1 hour'' = Some 120
   \<and> extract_duration_constraint ''2 hr or 1 hour'' \<noteq> Some 60"
proof -
  have a: "str_in ''1 hour'' ''2 hr or 1 hour''"
    by code_simp
  have b: "re_search [''min'', ''minute'', ''minutes''] (lower ''2 hr or 1 hour'') = None"
    by code_simp
  have c: "extract_duration_constraint ''2 hr or 1 hour'' = Some 120"
    by code_simp
  from a b c show ?thesis
    by simp
qed

text \<open>
  Claim C8, amended. \<open>extract_duration_constraint\<close> tries the minutes pattern, then the
  hours pattern, then the bare-h pattern on the lower-cased query, and returns the number
  of the leftmost match of the first pattern that matches, times 60 for the two hour
  patterns; it returns \<open>None\<close> exactly when none of the three matches. A query with no
  minutes pattern whose leftmost hours match has the number 1 yields 60; this is so for
  every query that contains \<^verbatim>\<open>1 hour\<close> with no match of the hours pattern starting
  before that phrase, such as \<^verbatim>\<open>finish within 1 hour\<close> and
  \<^verbatim>\<open>Java 8 developer, finish within 1 hour\<close>.
\<close>

theorem extract_duration_constraint_first_pattern:
  "extract_duration_constraint q =
     (case re_search [''min'', ''minute'', ''minutes''] (lower q) of
        Some v \<Rightarrow> Some v
      | None \<Rightarrow>
          (case re_search [''hr'', ''hour'', ''hours''] (lower q) of
             Some v \<Rightarrow> Some (v * 60)
           | None \<Rightarrow>
               (case re_search [''h''] (lower q) of
                  Some v \<Rightarrow> Some (v * 60)
                | None \<Rightarrow> None)))
   \<and> (extract_duration_constraint q = None \<longleftrightarrow>
        re_search [''min'', ''minute'', ''minutes''] (lower q) = None
        \<and> re_search [''hr'', ''hour'', ''hours''] (lower q) = None
        \<and> re_search [''h''] (lower q) = None)
   \<and> (re_search [''min'', ''minute'', ''minutes''] (lower q) = None
        \<and> re_search [''hr'', ''hour'', ''hours''] (lower q) = Some 1
      \<longrightarrow> extract_duration_constraint q = Some 60)
   \<and> (list_all (\<lambda>s. match_here [''hr'', ''hour'', ''hours''] (lower (s @ ''1 hour'' @ post)) = None)
          (tails pre)
        \<and> re_search [''min'', ''minute'', ''minutes''] (lower (pre @ ''1 hour'' @ post)) = None
      \<longrightarrow> extract_duration_constraint (pre @ ''1 hour'' @ post) = Some 60)
   \<and> extract_duration_constraint ''finish within 1 hour'' = Some 60
   \<and> extract_duration_constraint ''Java 8 developer, finish within 1 hour'' = Some 60"
proof (intro conjI impI)
  show "extract_duration_constraint q =
     (case re_search [''min'', ''minute'', ''minutes''] (lower q) of
        Some v \<Rightarrow> Some v
      | None \<Rightarrow>
          (case re_search [''hr'', ''hour'', ''hours''] (lower q) of
             Some v \<Rightarrow> Some (v * 60)
           | None \<Rightarrow>
               (case re_search [''h''] (lower q) of
                  Some v \<Rightarrow> Some (v * 60)
                | None \<Rightarrow> None)))"
    by (simp only: extract_duration_constraint_def pattern_loop_patterns)
  show "extract_duration_constraint q = None \<longleftrightarrow>
        re_search [''min'', ''minute'', ''minutes''] (lower q) = None
        \<and> re_search [''hr'', ''hour'', ''hours''] (lower q) = None
        \<and> re_search [''h''] (lower q) = None"
    by (simp add: extract_duration_constraint_def pattern_loop_patterns split: option.splits)
  show "extract_duration_constraint q = Some 60"
    if "re_search [''min'', ''minute'', ''minutes''] (lower q) = None
        \<and> re_search [''hr'', ''hour'', ''hours''] (lower q) = Some 1"
    using that by (simp add: extract_duration_constraint_def pattern_loop_patterns)
  show "extract_duration_constraint (pre @ ''1 hour'' @ post) = Some 60"
    if h: "list_all (\<lambda>s. match_here [''hr'', ''hour'', ''hours''] (lower (s @ ''1 hour'' @ post)) = None)
          (tails pre)
        \<and> re_search [''min'', ''minute'', ''minutes''] (lower (pre @ ''1 hour'' @ post)) = None"
  proof -
    from h have "re_search [''hr'', ''hour'', ''hours''] (lower (pre @ ''1 hour'' @ post)) = Some 1"
      by (simp only: one_hour_leftmost)
    with h show ?thesis
      by (simp add: extract_duration_constraint_def pattern_loop_patterns)
  qed
  show "extract_duration_constraint ''finish within 1 hour'' = Some 60"
    by code_simp
  show "extract_duration_constraint ''Java 8 developer, finish within 1 hour'' = Some 60"
    by code_simp
qed

theorem extract_duration_constraint_first_pattern_witness:
  "list_all (\<lambda>s. match_here [''hr'', ''hour'', ''hours''] (lower (s @ ''1 hour'' @ '' or less'')) = None)
     (tails ''Java 8 devs, done in '')
   \<and> re_search [''min'', ''minute'', ''minutes''] (lower (''Java 8 devs, done in '' @ ''1 hour'' @ '' or less'')) = None
   \<and> extract_duration_constraint (''Java 8 devs, done in '' @ ''1 hour'' @ '' or less'') = Some 60
   \<and> extract_duration_constraint ''under 2H, say 45 Minutes'' = Some 45
   \<and> extract_duration_constraint ''no limit'' = None"
proof -
  note th = extract_duration_constraint_first_pattern
  have a: "list_all (\<lambda>s. match_here [''hr'', ''hour'', ''hours''] (lower (s @ ''1 hour'' @ '' or less'')) = None)
     (tails ''Java 8 devs, done in '')"
    by code_simp
  have b: "re_search [''min'', ''minute'', ''minutes''] (lower (''Java 8 devs, done in '' @ ''1 hour'' @ '' or less'')) = None"
    by code_simp
  have c: "re_search [''min'', ''minute'', ''minutes''] (lower ''under 2H, say 45 Minutes'') = Some 45"
    by code_simp
  have d: "re_search [''min'', ''minute'', ''minutes''] (lower ''no limit'') = None"
          "re_search [''hr'', ''hour'', ''hours''] (lower ''no limit'') = None"
          "re_search [''h''] (lower ''no limit'') = None"
    by code_simp+
  from th [of "[]" "'' or less''" "''Java 8 devs, done in ''"] a b
  have e: "extract_duration_constraint (''Java 8 devs, done in '' @ ''1 hour'' @ '' or less'') = Some 60"
    by blast
  from th [of "''under 2H, say 45 Minutes''" "[]" "[]"] c
  have f: "extract_duration_constraint ''under 2H, say 45 Minutes'' = Some 45"
    by simp
  from th [of "''no limit''" "[]" "[]"] d
  have g: "extract_duration_constraint ''no limit'' = None"
    by simp
  show ?thesis
    by (intro conjI; fact)
qed

lemma parse_duration_total:
  "parse_duration s = (if matched_total s > 0 then matched_total s else 999)"
proof (cases "s = []")
  case True
  then show ?thesis
    by (simp add: parse_duration_def matched_total_def lower_def)
next
  case False
  then show ?thesis
    by (simp add: parse_duration_def matched_total_def Let_def split: option.splits)
qed

lemma scored_results_keeps_all: "map res (scored_results tts ctx all_results) = all_results"
  by (simp add: scored_results_def score_result_def Let_def comp_def)

text \<open>
  Claim C9, as stated, fails: for the duration text \<^verbatim>\<open>0 minutes\<close> the minute pattern
  matches with value 0 and the hour pattern does not match, so the sum of the matches is
  0, but \<open>parse_duration\<close> returns the sentinel 999.
\<close>

theorem parse_duration_zero_counterexample:
  "re_search [''min'', ''minute''] (lower ''0 minutes'') = Some 0
   \<and> re_search [''hr'', ''hour''] (lower ''0 minutes'') = None
   \<and> matched_total ''0 minutes'' = 0
   \<and> parse_duration ''0 minutes'' = 999
   \<and> parse_duration ''0 minutes'' \<noteq> matched_total ''0 minutes''"
proof -
  have a: "re_search [''min'', ''minute''] (lower ''0 minutes'') = Some 0"
    by code_simp
  have b: "re_search [''hr'', ''hour''] (lower ''0 minutes'') = None"
    by code_simp
  from a b have c: "matched_total ''0 minutes'' = 0"
    by (simp only: matched_total_def) simp
  then have "parse_duration ''0 minutes'' = 999"
    by (simp only: parse_duration_total) simp
  with a b c show ?thesis
    by simp
qed

text \<open>
  Claim C9, amended. \<open>parse_duration\<close> returns the sum of the hour match times 60 and
  the minute match when that sum is positive, and the sentinel 999 otherwise, that is
  when neither pattern matches or the matched numbers add up to 0. The text
  \<^verbatim>\<open>Approximate completion time: 45 minutes\<close> yields 45 and the empty text 999. Scoring
  keeps every candidate of the pool, whatever its duration.
\<close>

theorem parse_duration_sum_or_sentinel:
  "parse_duration s = (if matched_total s > 0 then matched_total s else 999)
   \<and> (re_search [''hr'', ''hour''] (lower s) = None
        \<and> re_search [''min'', ''minute''] (lower s) = None \<longrightarrow> parse_duration s = 999)
   \<and> parse_duration ''Approximate completion time: 45 minutes'' = 45
   \<and> parse_duration [] = 999
   \<and> map res (scored_results tts ctx all_results) = all_results"
proof (intro conjI impI)
  show "parse_duration s = (if matched_total s > 0 then matched_total s else 999)"
    by (rule parse_duration_total)
  show "parse_duration s = 999"
    if "re_search [''hr'', ''hour''] (lower s) = None
        \<and> re_search [''min'', ''minute''] (lower s) = None"
    using that by (simp add: parse_duration_total matched_total_def)
  show "parse_duration ''Approximate completion time: 45 minutes'' = 45"
    by code_simp
  show "parse_duration [] = 999"
    by (simp add: parse_duration_def)
  show "map res (scored_results tts ctx all_results) = all_results"
    by (rule scored_results_keeps_all)
qed

theorem parse_duration_sum_or_sentinel_witness:
  "matched_total ''1 Hour 30 Minutes'' = 90
   \<and> parse_duration ''1 Hour 30 Minutes'' = 90
   \<and> re_search [''hr'', ''hour''] (lower ''about 2h'') = None
   \<and> re_search [''min'', ''minute''] (lower ''about 2h'') = None
   \<and> parse_duration ''about 2h'' = 999"
proof -
  have a: "matched_total ''1 Hour 30 Minutes'' = 90"
    by code_simp
  have b: "re_search [''hr'', ''hour''] (lower ''about 2h'') = None"
          "re_search [''min'', ''minute''] (lower ''about 2h'') = None"
    by code_simp+
  from parse_duration_sum_or_sentinel [of "''1 Hour 30 Minutes''" "[]" "bare_context []" "[]"] a
  have "parse_duration ''1 Hour 30 Minutes'' = 90"
    by simp
  moreover from parse_duration_sum_or_sentinel [of "''about 2h''" "[]" "bare_context []" "[]"] b
  have "parse_duration ''about 2h'' = 999"
    by blast
  ultimately show ?thesis
    using a b by blast
qed

section \<open>Skill expansion: results\<close>

lemma set_set_add: "set (set_add x xs) = insert x (set xs)"
  by (auto simp: set_add_def)

lemma set_set_update: "set (set_update ys xs) = set xs \<union> set ys"
  unfolding set_update_def
  by (induction ys arbitrary: xs) (auto simp: set_set_add)

lemma groups_Cons:
  "{set synonyms | key synonyms. (key, synonyms) \<in> set ((k, g) # items) \<and> s \<in> set synonyms}
     = (if s \<in> set g then {set g} else {})
       \<union> {set synonyms | key synonyms. (key, synonyms) \<in> set items \<and> s \<in> set synonyms}"
  by auto

lemma set_synonyms_loop:
  "set (synonyms_loop s items expanded) =
     set expanded \<union> \<Union> {set synonyms | key synonyms. (key, synonyms) \<in> set items \<and> s \<in> set synonyms}"
proof (induction s items expanded rule: synonyms_loop.induct)
  case (1 s expanded)
  then show ?case by simp
next
  case (2 s k g items expanded)
  show ?case
    by (simp only: synonyms_loop.simps "2.IH" groups_Cons)
       (simp add: set_set_update Un_assoc)
qed

lemma set_expand_loop:
  "set (expand_loop ss expanded) = set expanded \<union> (\<Union>s \<in> set ss. related (lower s))"
proof (induction ss arbitrary: expanded)
  case Nil
  then show ?case by simp
next
  case (Cons sk rest)
  have "set (synonyms_loop (lower sk) SKILL_SYNONYMS (set_add (lower sk) expanded))
          = set expanded \<union> related (lower sk)"
    by (simp add: set_synonyms_loop set_set_add related_def)
  then show ?case
    by (auto simp: Cons.IH)
qed

lemma set_expand_skills: "set (expand_skills ss) = (\<Union>s \<in> set ss. related (lower s))"
  by (simp add: expand_skills_def set_expand_loop)

lemma synonyms_distinct: "distinct (concat (map snd SKILL_SYNONYMS))"
  unfolding SKILL_SYNONYMS_def by simp

lemma synonyms_lower: "list_all (\<lambda>e. lower e = e) (concat (map snd SKILL_SYNONYMS))"
  unfolding SKILL_SYNONYMS_def by (simp add: lower_def lower_char_def upper_lower_def)

lemma synonyms_one_group:
  assumes "(k1, g1) \<in> set SKILL_SYNONYMS" "(k2, g2) \<in> set SKILL_SYNONYMS"
    and "e \<in> set g1" "e \<in> set g2"
  shows "g1 = g2"
proof (rule ccontr)
  assume "g1 \<noteq> g2"
  moreover have "g1 \<in> set (map snd SKILL_SYNONYMS)" "g2 \<in> set (map snd SKILL_SYNONYMS)"
    using assms(1,2) by force+
  ultimately have "set g1 \<inter> set g2 = {}"
    using synonyms_distinct by (simp only: distinct_concat_iff) blast
  with assms(3,4) show False by blast
qed

lemma related_group:
  assumes "(k, g) \<in> set SKILL_SYNONYMS" "e \<in> set g"
  shows "related e = set g"
proof -
  have "{set synonyms | key synonyms. (key, synonyms) \<in> set SKILL_SYNONYMS \<and> e \<in> set synonyms}
          = {set g}"
  proof (intro equalityI subsetI)
    fix x
    assume "x \<in> {set synonyms | key synonyms.
                     (key, synonyms) \<in> set SKILL_SYNONYMS \<and> e \<in> set synonyms}"
    then obtain k2 g2 where "x = set g2" "(k2, g2) \<in> set SKILL_SYNONYMS" "e \<in> set g2"
      by blast
    with synonyms_one_group [OF assms(1) this(2) assms(2) this(3)] show "x \<in> {set g}"
      by simp
  next
    fix x
    assume "x \<in> {set g}"
    with assms show "x \<in> {set synonyms | key synonyms.
                     (key, synonyms) \<in> set SKILL_SYNONYMS \<and> e \<in> set synonyms}"
      by blast
  qed
  then have "related e = insert e (set g)"
    by (simp only: related_def) simp
  with assms(2) show ?thesis
    by auto
qed

lemma related_closed:
  assumes "e \<in> related x"
  shows "related e \<subseteq> related x"
proof (cases "e = x")
  case True
  then show ?thesis by simp
next
  case False
  with assms obtain k g where g: "(k, g) \<in> set SKILL_SYNONYMS" "x \<in> set g" "e \<in> set g"
    unfolding related_def by blast
  from related_group [OF g(1) g(2)] related_group [OF g(1) g(3)] show ?thesis
    by simp
qed

lemma related_lower:
  assumes "e \<in> related (lower s)"
  shows "lower e = e"
proof (cases "e = lower s")
  case True
  then show ?thesis by (simp add: lower_idem)
next
  case False
  with assms obtain k g where "(k, g) \<in> set SKILL_SYNONYMS" "e \<in> set g"
    unfolding related_def by blast
  then have "e \<in> set (concat (map snd SKILL_SYNONYMS))"
    by force
  with synonyms_lower show ?thesis
    unfolding list_all_iff by blast
qed

text \<open>
  Claim C4. The expansion lower-cases every input skill, keeps it, and adds the members
  of every synonym group whose list contains it (membership in the list, whatever the
  key of the group); as a set it is unchanged by a second expansion.
\<close>

theorem expand_skills_idempotent:
  "set (expand_skills ss) =
     (\<Union>s \<in> set ss. insert (lower s)
        (\<Union> {set synonyms | key synonyms.
              (key, synonyms) \<in> set SKILL_SYNONYMS \<and> lower s \<in> set synonyms}))
   \<and> set (expand_skills (expand_skills ss)) = set (expand_skills ss)"
proof
  show "set (expand_skills ss) =
     (\<Union>s \<in> set ss. insert (lower s)
        (\<Union> {set synonyms | key synonyms.
              (key, synonyms) \<in> set SKILL_SYNONYMS \<and> lower s \<in> set synonyms}))"
    by (simp only: set_expand_skills related_def)
  show "set (expand_skills (expand_skills ss)) = set (expand_skills ss)"
  proof
    show "set (expand_skills (expand_skills ss)) \<subseteq> set (expand_skills ss)"
    proof
      fix x
      assume "x \<in> set (expand_skills (expand_skills ss))"
      then obtain e s where e: "s \<in> set ss" "e \<in> related (lower s)" "x \<in> related (lower e)"
        by (auto simp: set_expand_skills)
      from e(2) have "lower e = e" by (rule related_lower)
      with e(3) related_closed [OF e(2)] have "x \<in> related (lower s)" by auto
      with e(1) show "x \<in> set (expand_skills ss)"
        by (auto simp: set_expand_skills)
    qed
    show "set (expand_skills ss) \<subseteq> set (expand_skills (expand_skills ss))"
    proof
      fix e
      assume "e \<in> set (expand_skills ss)"
      then obtain s where s: "s \<in> set ss" "e \<in> related (lower s)"
        by (auto simp: set_expand_skills)
      from s(2) have "lower e = e" by (rule related_lower)
      then have "e \<in> related (lower e)" by (simp add: related_def)
      with s show "e \<in> set (expand_skills (expand_skills ss))"
        by (auto simp: set_expand_skills)
    qed
  qed
qed

theorem expand_skills_idempotent_witness:
  "set (expand_skills (expand_skills [''JS'', ''Java''])) = set (expand_skills [''JS'', ''Java''])
   \<and> set (expand_skills [''JS'', ''Java'']) =
       {''js'', ''javascript'', ''node'', ''nodejs'', ''react'', ''angular'', ''vue'', ''java'', ''j2ee'', ''spring''}"
proof
  show "set (expand_skills (expand_skills [''JS'', ''Java''])) = set (expand_skills [''JS'', ''Java''])"
    using expand_skills_idempotent [of "[''JS'', ''Java'']"] by simp
  have "expand_skills [''JS'', ''Java''] = [''js'', ''javascript'', ''node'', ''nodejs'', ''react'', ''angular'', ''vue'', ''java'', ''j2ee'', ''spring'']"
    by code_simp
  then show "set (expand_skills [''JS'', ''Java'']) =
       {''js'', ''javascript'', ''node'', ''nodejs'', ''react'', ''angular'', ''vue'', ''java'', ''j2ee'', ''spring''}"
    by (simp only: list.set) 
qed

section \<open>Scoring: results\<close>

lemma skill_loop_sum: "skill_loop r ss ks = ks + sum_list (map (skill_tier r) ss)"
  by (induction ss arbitrary: ks) (simp_all add: skill_tier_def)

lemma role_loop_count:
  "role_loop nm parts ks = ks + 0.9 * of_nat (length (filter (\<lambda>p. str_in p nm) parts))"
  by (induction parts arbitrary: ks) (simp_all add: algebra_simps)

lemma split_empty: "split [] = []"
  by (simp add: split_def)

text \<open>
  Claim C6. The keyword score is the sum, over the expanded skills, of one tier each
  (1.8 for the name, else 1.2 for the skill list, else 0.6 for the description, else 0),
  plus 0.9 for every whitespace-delimited token of the role that is longer than 3
  characters and occurs in the name. Name and description are compared lower-cased, the
  skill list lower-cased and stripped.
\<close>

theorem keyword_score_is_tier_sum_plus_role:
  "compute_keyword_score ctx r =
     sum_list (map (\<lambda>skill.
        if str_in skill (lower (name r)) then 1.8
        else if skill \<in> set (map (\<lambda>s. strip (lower s)) (skills r)) then 1.2
        else if str_in skill (lower (description r)) then 0.6
        else 0) (expanded_skills ctx))
     + 0.9 * of_nat (length (filter (\<lambda>p. length p > 3 \<and> str_in p (lower (name r)))
                                   (split (llm_role ctx))))"
proof -
  have tier: "(\<lambda>skill.
        if str_in skill (lower (name r)) then 1.8
        else if skill \<in> set (map (\<lambda>s. strip (lower s)) (skills r)) then 1.2
        else if str_in skill (lower (description r)) then 0.6
        else (0 :: rat)) = skill_tier r"
    by (simp add: skill_tier_def fun_eq_iff)
  have flt: "filter (\<lambda>p. str_in p nm) (filter (\<lambda>p. length p > 3) ps)
               = filter (\<lambda>p. length p > 3 \<and> str_in p nm) ps" for nm and ps :: "string list"
    by (induction ps) simp_all
  show ?thesis
  proof (cases "llm_role ctx = []")
    case True
    then show ?thesis
      by (simp only: tier) (simp add: compute_keyword_score_def skill_loop_sum split_empty)
  next
    case False
    then show ?thesis
      by (simp only: tier)
         (simp add: compute_keyword_score_def Let_def skill_loop_sum role_loop_count flt)
  qed
qed

theorem keyword_score_is_tier_sum_plus_role_witness:
  "compute_keyword_score
     \<lparr>expanded_skills = [''java'', ''sql'', ''teamwork'', ''cobol''], llm_job_level = [],
      llm_test_types = [], llm_role = ''senior java dev developer'', duration_constraint = None\<rparr>
     \<lparr>name = ''Java Developer Test'', url = ''u'', description = ''Covers teamwork and SQL'',
      test_types = [''K''], job_level = [], skills = ['' SQL '', ''OOP''], duration = [],
      similarity_score = 0.8\<rparr>
   = 1.8 + 1.2 + 0.6 + 0 + 0.9 * 2"
proof -
  have "split ''senior java dev developer'' = [''senior'', ''java'', ''dev'', ''developer'']"
    by code_simp
  moreover have "lower ''Java Developer Test'' = ''java developer test''"
    by code_simp
  moreover have "lower ''Covers teamwork and SQL'' = ''covers teamwork and sql''"
    by code_simp
  moreover have "map (\<lambda>s. strip (lower s)) ['' SQL '', ''OOP''] = [''sql'', ''oop'']"
    by code_simp
  ultimately show ?thesis
    using keyword_score_is_tier_sum_plus_role
      [of "\<lparr>expanded_skills = [''java'', ''sql'', ''teamwork'', ''cobol''], llm_job_level = [],
            llm_test_types = [], llm_role = ''senior java dev developer'',
            duration_constraint = None\<rparr>"
          "\<lparr>name = ''Java Developer Test'', url = ''u'',
            description = ''Covers teamwork and SQL'', test_types = [''K''], job_level = [],
            skills = ['' SQL '', ''OOP''], duration = [], similarity_score = 0.8\<rparr>"]
    by simp
qed

lemma metadata_score_category:
  assumes "llm_job_level ctx = []"
    and "duration_constraint ctx = None \<or> duration_constraint ctx = Some 0"
  shows "compute_metadata_score tts ctx r = category_score tts r"
  using assms by (auto simp: compute_metadata_score_def category_score_def Let_def)

lemma keyword_score_zero:
  assumes "expanded_skills ctx = []" "llm_role ctx = []"
  shows "compute_keyword_score ctx r = 0"
  using assms by (simp add: compute_keyword_score_def)

text \<open>
  Claim C2, as stated, fails. With no skills, no job level, no duration limit and no
  role, a candidate of test type K still gets the metadata score 0.5 (0.3 for declaring
  K or P, 0.2 for a required type), and its final score is not 0.35 times its
  similarity. With the role \<^verbatim>\<open>java developer\<close> and still no skills, the keyword score
  of a candidate named \<^verbatim>\<open>Java Developer Test\<close> is 1.8.
\<close>

theorem degradation_counterexample:
  "metadata_score (score_result (default_test_types []) (bare_context [])
                     (candidate ''Java Developer Test'' ''u'' [''K''] 0.8)) = 0.5
   \<and> keyword_score (score_result (default_test_types []) (bare_context [])
                     (candidate ''Java Developer Test'' ''u'' [''K''] 0.8)) = 0
   \<and> final_score (score_result (default_test_types []) (bare_context [])
                     (candidate ''Java Developer Test'' ''u'' [''K''] 0.8)) = 0.35 * 0.8 + 0.1
   \<and> final_score (score_result (default_test_types []) (bare_context [])
                     (candidate ''Java Developer Test'' ''u'' [''K''] 0.8)) \<noteq> 0.35 * 0.8
   \<and> keyword_score (score_result (default_test_types [])
                     ((bare_context []) \<lparr>llm_role := ''java developer''\<rparr>)
                     (candidate ''Java Developer Test'' ''u'' [''K''] 0.8)) = 1.8"
proof -
  define c where "c = candidate ''Java Developer Test'' ''u'' [''K''] 0.8"
  have nm: "lower (name c) = ''java developer test''"
    unfolding c_def candidate_def by code_simp
  have sp: "split ''java developer'' = [''java'', ''developer'']"
    by code_simp
  have k0: "compute_keyword_score (bare_context []) c = 0"
    by (simp add: keyword_score_zero bare_context_def)
  have k1: "compute_keyword_score ((bare_context []) \<lparr>llm_role := ''java developer''\<rparr>) c = 1.8"
    by (simp add: compute_keyword_score_def bare_context_def sp nm)
  have m0: "compute_metadata_score (default_test_types []) (bare_context []) c = 0.5"
    by (simp add: metadata_score_category category_score_def bare_context_def
                  default_test_types_def c_def candidate_def)
  have sim: "similarity_score c = 0.8"
    by (simp add: c_def candidate_def)
  have "metadata_score (score_result (default_test_types []) (bare_context []) c) = 0.5
   \<and> keyword_score (score_result (default_test_types []) (bare_context []) c) = 0
   \<and> final_score (score_result (default_test_types []) (bare_context []) c) = 0.35 * 0.8 + 0.1
   \<and> final_score (score_result (default_test_types []) (bare_context []) c) \<noteq> 0.35 * 0.8
   \<and> keyword_score (score_result (default_test_types [])
                     ((bare_context []) \<lparr>llm_role := ''java developer''\<rparr>) c) = 1.8"
    by (simp add: score_result_def Let_def k0 k1 m0 sim compute_final_score_def)
  then show ?thesis
    unfolding c_def .
qed

text \<open>
  Claim C2, amended. With an empty skill set and no role the keyword score is 0. With
  no job level and no duration limit the metadata score is the category term alone: 0.3
  if the candidate declares K or P, plus 0.2 if one of its test types is required; it is
  0 exactly for a candidate that declares neither K nor P nor any required type. With
  all four absent the final score is 0.35 times the similarity plus 0.20 times that
  category term.
\<close>

theorem degradation_to_semantic_and_category:
  "(expanded_skills ctx = [] \<and> llm_role ctx = [] \<longrightarrow>
      keyword_score (score_result tts ctx r) = 0)
   \<and> (llm_job_level ctx = [] \<and> (duration_constraint ctx = None \<or> duration_constraint ctx = Some 0) \<longrightarrow>
      metadata_score (score_result tts ctx r) =
        (if ''K'' \<in> set (test_types r) \<or> ''P'' \<in> set (test_types r) then 0.3 else 0)
        + (if list_ex (\<lambda>t. t \<in> set tts) (test_types r) then 0.2 else 0)
      \<and> (metadata_score (score_result tts ctx r) = 0 \<longleftrightarrow>
           ''K'' \<notin> set (test_types r) \<and> ''P'' \<notin> set (test_types r)
           \<and> \<not> list_ex (\<lambda>t. t \<in> set tts) (test_types r)))
   \<and> (expanded_skills ctx = [] \<and> llm_role ctx = [] \<and> llm_job_level ctx = []
        \<and> (duration_constraint ctx = None \<or> duration_constraint ctx = Some 0) \<longrightarrow>
      final_score (score_result tts ctx r) =
        0.35 * similarity_score r
        + 0.20 * ((if ''K'' \<in> set (test_types r) \<or> ''P'' \<in> set (test_types r) then 0.3 else 0)
                  + (if list_ex (\<lambda>t. t \<in> set tts) (test_types r) then 0.2 else 0)))"
proof (intro conjI impI)
  show "keyword_score (score_result tts ctx r) = 0"
    if "expanded_skills ctx = [] \<and> llm_role ctx = []"
    using that by (simp add: score_result_def Let_def keyword_score_zero)
  show "metadata_score (score_result tts ctx r) =
        (if ''K'' \<in> set (test_types r) \<or> ''P'' \<in> set (test_types r) then 0.3 else 0)
        + (if list_ex (\<lambda>t. t \<in> set tts) (test_types r) then 0.2 else 0)"
    if "llm_job_level ctx = [] \<and> (duration_constraint ctx = None \<or> duration_constraint ctx = Some 0)"
    using that by (simp add: score_result_def Let_def metadata_score_category category_score_def)
  show "metadata_score (score_result tts ctx r) = 0 \<longleftrightarrow>
           ''K'' \<notin> set (test_types r) \<and> ''P'' \<notin> set (test_types r)
           \<and> \<not> list_ex (\<lambda>t. t \<in> set tts) (test_types r)"
    if "llm_job_level ctx = [] \<and> (duration_constraint ctx = None \<or> duration_constraint ctx = Some 0)"
    using that by (simp add: score_result_def Let_def metadata_score_category category_score_def)
  show "final_score (score_result tts ctx r) =
        0.35 * similarity_score r
        + 0.20 * ((if ''K'' \<in> set (test_types r) \<or> ''P'' \<in> set (test_types r) then 0.3 else 0)
                  + (if list_ex (\<lambda>t. t \<in> set tts) (test_types r) then 0.2 else 0))"
    if "expanded_skills ctx = [] \<and> llm_role ctx = [] \<and> llm_job_level ctx = []
        \<and> (duration_constraint ctx = None \<or> duration_constraint ctx = Some 0)"
    using that
    by (simp add: score_result_def Let_def metadata_score_category category_score_def
                  keyword_score_zero compute_final_score_def)
qed

theorem degradation_to_semantic_and_category_witness:
  "expanded_skills (bare_context [''K'', ''P'']) = []
   \<and> llm_role (bare_context [''K'', ''P'']) = []
   \<and> llm_job_level (bare_context [''K'', ''P'']) = []
   \<and> duration_constraint (bare_context [''K'', ''P'']) = None
   \<and> keyword_score (score_result [''K'', ''P''] (bare_context [''K'', ''P''])
                      (candidate ''Numerical Reasoning'' ''u'' [''A''] 0.6)) = 0
   \<and> metadata_score (score_result [''K'', ''P''] (bare_context [''K'', ''P''])
                      (candidate ''Numerical Reasoning'' ''u'' [''A''] 0.6)) = 0
   \<and> final_score (score_result [''K'', ''P''] (bare_context [''K'', ''P''])
                      (candidate ''Numerical Reasoning'' ''u'' [''A''] 0.6)) = 0.35 * 0.6"
proof -
  have h: "expanded_skills (bare_context [''K'', ''P'']) = []"
          "llm_role (bare_context [''K'', ''P'']) = []"
          "llm_job_level (bare_context [''K'', ''P'']) = []"
          "duration_constraint (bare_context [''K'', ''P'']) = None"
    by (simp_all add: bare_context_def)
  have c: "test_types (candidate ''Numerical Reasoning'' ''u'' [''A''] 0.6) = [''A'']"
          "similarity_score (candidate ''Numerical Reasoning'' ''u'' [''A''] 0.6) = 0.6"
    by (simp_all add: candidate_def)
  show ?thesis
    using degradation_to_semantic_and_category
      [of "bare_context [''K'', ''P'']" "[''K'', ''P'']"
          "candidate ''Numerical Reasoning'' ''u'' [''A''] 0.6"] h c
    by simp
qed

section \<open>Balancing and selection: results\<close>

lemma urls_append: "urls (xs @ ys) = urls xs @ urls ys"
  by (simp add: urls_def)

lemma set_sorted_desc: "set (sorted_desc xs) = set xs"
  by (simp add: sorted_desc_def)

lemma distinct_map_insort_key:
  "distinct (map g (insort_key f x xs)) = (g x \<notin> g ` set xs \<and> distinct (map g xs))"
  by (induction xs) (auto simp: set_insort_key)

lemma distinct_map_sort_key:
  "distinct (map g (sort_key f xs)) = distinct (map g xs)"
  by (induction xs) (simp_all add: distinct_map_insort_key)

lemma distinct_urls_sorted_desc: "distinct (urls (sorted_desc xs)) = distinct (urls xs)"
  by (simp add: urls_def sorted_desc_def distinct_map_sort_key)

lemma distinct_urls_take: "distinct (urls xs) \<Longrightarrow> distinct (urls (take n xs))"
  by (simp add: urls_def take_map [symmetric] distinct_take)

lemma sorted_desc_sorted:
  "sorted_wrt (\<lambda>a b. final_score a \<ge> final_score b) (sorted_desc xs)"
proof -
  have "sorted (map (\<lambda>x. - final_score x) (sorted_desc xs))"
    by (simp add: sorted_desc_def)
  then show ?thesis
    by (simp add: sorted_map) 
qed

lemma bucket_loop_subset:
  "bucket_loop xs (k0, p0, o0) = (bk, bp, bo) \<Longrightarrow>
     set bk \<subseteq> set k0 \<union> set xs \<and> set bp \<subseteq> set p0 \<union> set xs \<and> set bo \<subseteq> set o0 \<union> set xs"
proof (induction xs arbitrary: k0 p0 o0)
  case Nil
  then show ?case by simp
next
  case (Cons r rest)
  from Cons.prems show ?case
    by (auto simp: Let_def dest!: Cons.IH split: if_splits)
qed

lemma interleave_step_subset:
  "set (interleave_step n bk bp i final) \<subseteq> set final \<union> set bk \<union> set bp"
  by (auto simp: interleave_step_def Let_def)

lemma interleave_fold_subset:
  "set (foldl (\<lambda>final i. interleave_step n bk bp i final) acc is) \<subseteq> set acc \<union> set bk \<union> set bp"
proof (induction "is" arbitrary: acc)
  case Nil
  then show ?case by auto
next
  case (Cons i rest)
  show ?case
    using Cons.IH [of "interleave_step n bk bp i acc"] interleave_step_subset [of n bk bp i acc]
    by auto
qed

lemma interleave_subset: "set (interleave n bk bp) \<subseteq> set bk \<union> set bp"
  using interleave_fold_subset [of n bk bp "[]"] by (simp add: interleave_def)

lemma final_recommendations_subset:
  "set (final_recommendations tts n bk bp) \<subseteq> set bk \<union> set bp"
proof -
  have "set (take m bk) \<subseteq> set bk" "set (take m bp) \<subseteq> set bp" for m
    by (rule set_take_subset)+
  then show ?thesis
    using interleave_subset [of n bk bp]
    by (auto simp: final_recommendations_def Let_def)
qed

lemma dict_put_keys:
  "map fst (dict_put d k v) = (if k \<in> fst ` set d then map fst d else map fst d @ [k])"
  by (induction d k v rule: dict_put.induct) (auto simp: image_iff)

lemma dict_put_entries: "set (dict_put d k v) \<subseteq> insert (k, v) (set d)"
  by (induction d k v rule: dict_put.induct) auto

lemma dict_ok_put:
  "dict_ok recs d \<Longrightarrow> r \<in> set recs \<Longrightarrow> dict_ok recs (dict_put d (url (res r)) r)"
  using dict_put_entries [of d "url (res r)" r]
  by (auto simp: dict_ok_def dict_put_keys list_all_iff)

lemma dict_ok_fold:
  "dict_ok recs d \<Longrightarrow> set xs \<subseteq> set recs \<Longrightarrow>
     dict_ok recs (foldl (\<lambda>d r. dict_put d (url (res r)) r) d xs)"
  by (induction xs arbitrary: d) (simp_all add: dict_ok_put)

lemma dict_ok_values:
  "dict_ok recs d \<Longrightarrow> set (map snd d) \<subseteq> set recs \<and> distinct (urls (map snd d))"
proof -
  assume ok: "dict_ok recs d"
  then have "map (\<lambda>x. url (res (snd x))) d = map fst d"
    by (auto simp: dict_ok_def list_all_iff)
  then have "urls (map snd d) = map fst d"
    by (simp add: urls_def comp_def)
  moreover have "distinct (map fst d)" "set (map snd d) \<subseteq> set recs"
    using ok by (auto simp: dict_ok_def list_all_iff)
  ultimately show ?thesis
    by simp
qed

lemma unique_by_url_ok:
  "set (unique_by_url recs) \<subseteq> set recs \<and> distinct (urls (unique_by_url recs))"
  unfolding unique_by_url_def
  by (rule dict_ok_values, rule dict_ok_fold) (simp_all add: dict_ok_def)

lemma backfill_loop_ok:
  "distinct (urls u) \<Longrightarrow>
     set (backfill_loop n bo u) \<subseteq> set u \<union> set bo \<and> distinct (urls (backfill_loop n bo u))"
proof (induction bo arbitrary: u)
  case Nil
  then show ?case by simp
next
  case (Cons r rest)
  show ?case
  proof (cases "length u \<ge> n")
    case True
    with Cons.prems show ?thesis by auto
  next
    case False
    show ?thesis
    proof (cases "url (res r) \<in> set (urls u)")
      case True
      with False Cons.IH [OF Cons.prems] show ?thesis by auto
    next
      case new: False
      with Cons.prems have "distinct (urls (u @ [r]))"
        by (simp add: urls_def)
      from Cons.IH [OF this] False new show ?thesis by auto
    qed
  qed
qed

lemma backfill_ok:
  "distinct (urls u) \<Longrightarrow>
     set (backfill n bo u) \<subseteq> set u \<union> set bo \<and> distinct (urls (backfill n bo u))"
  using backfill_loop_ok [of u n bo] by (simp add: backfill_def)

lemma recommend_body_subset_distinct:
  "set (recommend_body tts ctx all_results n) \<subseteq> set (scored_results tts ctx all_results)
   \<and> distinct (urls (recommend_body tts ctx all_results n))"
proof -
  define srt where "srt = sorted_desc (scored_results tts ctx all_results)"
  obtain bk bp bo where b: "bucket_loop srt ([], [], []) = (bk, bp, bo)"
    by (cases "bucket_loop srt ([], [], [])") auto
  define recs where "recs = final_recommendations tts n bk bp"
  define u where "u = backfill n bo (unique_by_url recs)"
  have r: "recommend_body tts ctx all_results n = take n (sorted_desc u)"
    using b by (simp add: recommend_body_def Let_def srt_def recs_def u_def)
  from bucket_loop_subset [OF b]
  have bs: "set bk \<subseteq> set srt" "set bp \<subseteq> set srt" "set bo \<subseteq> set srt"
    by auto
  have "set recs \<subseteq> set srt"
    using final_recommendations_subset [of tts n bk bp] bs by (auto simp: recs_def)
  moreover have uq: "set (unique_by_url recs) \<subseteq> set recs" "distinct (urls (unique_by_url recs))"
    using unique_by_url_ok [of recs] by auto
  moreover have bf: "set u \<subseteq> set (unique_by_url recs) \<union> set bo" "distinct (urls u)"
    using backfill_ok [OF uq(2), of n bo] by (auto simp: u_def)
  ultimately have "set u \<subseteq> set srt"
    using bs by blast
  then have "set (take n (sorted_desc u)) \<subseteq> set (scored_results tts ctx all_results)"
    using set_take_subset [of n "sorted_desc u"] by (auto simp: set_sorted_desc srt_def)
  moreover have "distinct (urls (take n (sorted_desc u)))"
    using bf(2) by (simp add: distinct_urls_take distinct_urls_sorted_desc)
  ultimately show ?thesis
    by (simp add: r)
qed

lemma recommend_body_sorted:
  "sorted_wrt (\<lambda>a b. final_score a \<ge> final_score b) (recommend_body tts ctx all_results n)"
proof -
  have "\<exists>u. recommend_body tts ctx all_results n = take n (sorted_desc u)"
    by (auto simp: recommend_body_def Let_def split: prod.splits)
  then show ?thesis
    using sorted_desc_sorted sorted_wrt_take by metis
qed

lemma recommend_body_length: "length (recommend_body tts ctx all_results n) \<le> n"
  by (auto simp: recommend_body_def Let_def split: prod.splits)

lemma recommend_body_urls_subset:
  "set (urls (recommend_body tts ctx all_results n)) \<subseteq> set (map url all_results)"
proof -
  have "set (urls (recommend_body tts ctx all_results n))
          \<subseteq> set (urls (scored_results tts ctx all_results))"
    using recommend_body_subset_distinct [of tts ctx all_results n]
    by (auto simp: urls_def)
  moreover have "urls (scored_results tts ctx all_results) = map url all_results"
    by (simp add: urls_def scored_results_def score_result_def Let_def comp_def)
  ultimately show ?thesis
    by simp
qed

lemma metadata_score_same_set:
  "set t1 = set t2 \<Longrightarrow> compute_metadata_score t1 ctx r = compute_metadata_score t2 ctx r"
  by (simp add: compute_metadata_score_def)

lemma final_recommendations_same_set:
  "set t1 = set t2 \<Longrightarrow> final_recommendations t1 n bk bp = final_recommendations t2 n bk bp"
  by (simp add: final_recommendations_def)

lemma recommend_body_same_set:
  assumes "set t1 = set t2"
  shows "recommend_body t1 ctx all_results n = recommend_body t2 ctx all_results n"
proof -
  have "scored_results t1 ctx all_results = scored_results t2 ctx all_results"
    by (simp add: scored_results_def score_result_def metadata_score_same_set [OF assms])
  then show ?thesis
    by (simp add: recommend_body_def final_recommendations_same_set [OF assms])
qed

lemma recommend_body_ignores_llm_test_types:
  "recommend_body tts (ctx\<lparr>llm_test_types := x\<rparr>) all_results n
     = recommend_body tts ctx all_results n"
proof -
  have "compute_keyword_score (ctx\<lparr>llm_test_types := x\<rparr>) r = compute_keyword_score ctx r" for r
    by (simp add: compute_keyword_score_def cong: if_cong)
  moreover have "compute_metadata_score tts (ctx\<lparr>llm_test_types := x\<rparr>) r
                   = compute_metadata_score tts ctx r" for r
    by (simp add: compute_metadata_score_def cong: if_cong)
  ultimately have "score_result tts (ctx\<lparr>llm_test_types := x\<rparr>) = score_result tts ctx"
    by (simp add: fun_eq_iff score_result_def)
  then show ?thesis
    by (simp add: recommend_body_def scored_results_def)
qed

lemma recommend_as_body:
  "recommend (ctx\<lparr>llm_test_types := x\<rparr>) all_results n
     = recommend_body (default_test_types x) ctx all_results n"
  by (simp add: recommend_def recommend_body_ignores_llm_test_types)

lemma bucket_loop_filter:
  assumes "distinct (urls xs)"
    and "set (urls xs) \<inter> set (urls k0) = {}"
    and "set (urls xs) \<inter> set (urls p0) = {}"
    and "set (urls xs) \<inter> set (urls o0) = {}"
  shows "bucket_loop xs (k0, p0, o0) =
           (k0 @ filter (\<lambda>r. ''K'' \<in> set (test_types (res r))) xs,
            p0 @ filter (\<lambda>r. ''P'' \<in> set (test_types (res r))) xs,
            o0 @ filter (\<lambda>r. ''K'' \<notin> set (test_types (res r))
                              \<and> ''P'' \<notin> set (test_types (res r))) xs)"
  using assms
proof (induction xs arbitrary: k0 p0 o0)
  case Nil
  then show ?case by simp
next
  case (Cons r rest)
  let ?k = "if ''K'' \<in> set (test_types (res r)) then k0 @ [r] else k0"
  let ?p = "if ''P'' \<in> set (test_types (res r)) then p0 @ [r] else p0"
  let ?o = "if ''K'' \<notin> set (test_types (res r)) \<and> ''P'' \<notin> set (test_types (res r))
            then o0 @ [r] else o0"
  from Cons.prems have new: "url (res r) \<notin> set (urls k0)" "url (res r) \<notin> set (urls p0)"
      "url (res r) \<notin> set (urls o0)" "url (res r) \<notin> set (urls rest)" "distinct (urls rest)"
    by (auto simp: urls_def)
  have step: "bucket_loop (r # rest) (k0, p0, o0) = bucket_loop rest (?k, ?p, ?o)"
    using new by (simp add: Let_def)
  have "set (urls rest) \<inter> set (urls ?k) = {}" "set (urls rest) \<inter> set (urls ?p) = {}"
       "set (urls rest) \<inter> set (urls ?o) = {}"
    using Cons.prems new by (auto simp: urls_def)
  from Cons.IH [OF new(5) this] show ?case
    by (simp only: step) auto
qed

lemma nth_not_in_take:
  assumes "distinct xs" "m < length xs"
  shows "xs ! m \<notin> set (take m xs)"
proof
  assume "xs ! m \<in> set (take m xs)"
  then obtain j where j: "j < length (take m xs)" "take m xs ! j = xs ! m"
    by (auto simp: in_set_conv_nth)
  then have "j < m" "xs ! j = xs ! m" by auto
  with assms show False
    by (auto simp: nth_eq_iff_index_eq)
qed

lemma interleave_step_inv:
  assumes d: "distinct bk" "distinct bp" "set bk \<inter> set bp = {}"
    and inv: "length acc = min n (min m (length bk) + min m (length bp))"
             "distinct acc" "set acc \<subseteq> set (take m bk) \<union> set (take m bp)"
  shows "length (interleave_step n bk bp m acc)
           = min n (min (Suc m) (length bk) + min (Suc m) (length bp))
         \<and> distinct (interleave_step n bk bp m acc)
         \<and> set (interleave_step n bk bp m acc) \<subseteq> set (take (Suc m) bk) \<union> set (take (Suc m) bp)"
proof -
  define a1 where "a1 = (if m < length bk \<and> length acc < n then acc @ [bk ! m] else acc)"
  define a2 where "a2 = (if m < length bp \<and> length a1 < n then a1 @ [bp ! m] else a1)"
  have r: "interleave_step n bk bp m acc = a2"
    by (simp add: interleave_step_def a1_def a2_def Let_def)
  have tk: "m < length bk \<Longrightarrow> set (take (Suc m) bk) = insert (bk ! m) (set (take m bk))"
    by (simp add: take_Suc_conv_app_nth)
  have tp: "m < length bp \<Longrightarrow> set (take (Suc m) bp) = insert (bp ! m) (set (take m bp))"
    by (simp add: take_Suc_conv_app_nth)
  have sub: "set (take m bk) \<subseteq> set (take (Suc m) bk)" "set (take m bp) \<subseteq> set (take (Suc m) bp)"
    by (rule set_take_subset_set_take, simp)+
  have mem: "\<And>x j xs. x \<in> set (take j xs) \<Longrightarrow> x \<in> set (xs :: scored list)"
    by (rule in_set_takeD)
  have nk: "m < length bk \<Longrightarrow> bk ! m \<notin> set (take m bk) \<and> bk ! m \<notin> set (take m bp)"
    using d nth_not_in_take [of bk m] nth_mem [of m bk] mem [of "bk ! m" m bp] by blast
  have l1: "length a1 = min n (min (Suc m) (length bk) + min m (length bp))"
    using inv(1) by (auto simp: a1_def min_def)
  have d1: "distinct a1"
    using inv(2,3) nk by (auto simp: a1_def)
  have s1: "set a1 \<subseteq> set (take (Suc m) bk) \<union> set (take m bp)"
    using inv(3) sub tk by (auto simp: a1_def)
  have np: "m < length bp \<Longrightarrow> bp ! m \<notin> set (take m bp) \<and> bp ! m \<notin> set (take (Suc m) bk)"
    using d nth_not_in_take [of bp m] nth_mem [of m bp] mem [of "bp ! m" "Suc m" bk] by blast
  have l2: "length a2 = min n (min (Suc m) (length bk) + min (Suc m) (length bp))"
    using l1 by (auto simp: a2_def min_def)
  have d2: "distinct a2"
    using d1 s1 np by (auto simp: a2_def)
  have s2: "set a2 \<subseteq> set (take (Suc m) bk) \<union> set (take (Suc m) bp)"
    using s1 sub tp by (auto simp: a2_def)
  from l2 d2 s2 show ?thesis
    by (simp only: r)
qed

lemma interleave_fold_inv:
  assumes d: "distinct bk" "distinct bp" "set bk \<inter> set bp = {}"
  shows "length (foldl (\<lambda>final i. interleave_step n bk bp i final) [] [0..<m])
           = min n (min m (length bk) + min m (length bp))
         \<and> distinct (foldl (\<lambda>final i. interleave_step n bk bp i final) [] [0..<m])
         \<and> set (foldl (\<lambda>final i. interleave_step n bk bp i final) [] [0..<m])
             \<subseteq> set (take m bk) \<union> set (take m bp)"
proof (induction m)
  case 0
  then show ?case by simp
next
  case (Suc m)
  have "foldl (\<lambda>final i. interleave_step n bk bp i final) [] [0..<Suc m]
          = interleave_step n bk bp m (foldl (\<lambda>final i. interleave_step n bk bp i final) [] [0..<m])"
    by simp
  with interleave_step_inv [OF d, of "foldl (\<lambda>final i. interleave_step n bk bp i final) [] [0..<m]" n m]
       Suc.IH
  show ?case by simp
qed

lemma interleave_exact:
  assumes "distinct bk" "distinct bp" "set bk \<inter> set bp = {}"
  shows "length (interleave n bk bp) = min n (length bk + length bp)"
    and "distinct (interleave n bk bp)"
  using interleave_fold_inv [OF assms, of n "max (length bk) (length bp)"]
  by (simp_all add: interleave_def)


lemma dict_put_new: "k \<notin> fst ` set d \<Longrightarrow> dict_put d k v = d @ [(k, v)]"
  by (induction d k v rule: dict_put.induct) auto

lemma dict_fold_distinct:
  "distinct (map fst d @ urls xs) \<Longrightarrow>
     foldl (\<lambda>d r. dict_put d (url (res r)) r) d xs = d @ map (\<lambda>r. (url (res r), r)) xs"
proof (induction xs arbitrary: d)
  case Nil
  then show ?case by simp
next
  case (Cons r rest)
  from Cons.prems have new: "url (res r) \<notin> fst ` set d"
    by (auto simp: urls_def)
  from Cons.prems have "distinct (map fst (d @ [(url (res r), r)]) @ urls rest)"
    by (auto simp: urls_def)
  from Cons.IH [OF this] show ?case
    by (simp add: dict_put_new [OF new])
qed

lemma unique_by_url_id: "distinct (urls recs) \<Longrightarrow> unique_by_url recs = recs"
  using dict_fold_distinct [of "[]" recs] by (simp add: unique_by_url_def comp_def)

lemma backfill_loop_take:
  "distinct (urls (u @ bo)) \<Longrightarrow> backfill_loop n bo u = u @ take (n - length u) bo"
proof (induction bo arbitrary: u)
  case Nil
  then show ?case by simp
next
  case (Cons r rest)
  show ?case
  proof (cases "n \<le> length u")
    case True
    then show ?thesis by simp
  next
    case False
    from Cons.prems have new: "url (res r) \<notin> set (urls u)"
      by (auto simp: urls_def)
    from Cons.prems have "distinct (urls ((u @ [r]) @ rest))"
      by (simp add: urls_def)
    from Cons.IH [OF this] False new show ?thesis
      by (simp add: take_Cons')
  qed
qed

lemma backfill_take:
  "distinct (urls (u @ bo)) \<Longrightarrow> backfill n bo u = u @ take (n - length u) bo"
  by (simp add: backfill_def backfill_loop_take)

lemma bucket_sizes:
  assumes "list_all (\<lambda>r. \<not> (''K'' \<in> set (test_types (res r)) \<and> ''P'' \<in> set (test_types (res r)))) xs"
  shows "length (filter (\<lambda>r. ''K'' \<in> set (test_types (res r))) xs)
         + length (filter (\<lambda>r. ''P'' \<in> set (test_types (res r))) xs)
         + length (filter (\<lambda>r. ''K'' \<notin> set (test_types (res r))
                               \<and> ''P'' \<notin> set (test_types (res r))) xs)
         = length xs"
  using assms by (induction xs) auto

lemma distinct_urls_part:
  assumes "distinct (urls xs)" "distinct ys" "set ys \<subseteq> set xs"
  shows "distinct (urls ys)"
proof -
  from assms(1) have "inj_on (\<lambda>x. url (res x)) (set xs)"
    by (simp add: urls_def distinct_map)
  then have "inj_on (\<lambda>x. url (res x)) (set ys)"
    using assms(3) by (rule inj_on_subset)
  with assms(2) show ?thesis
    by (simp add: urls_def distinct_map)
qed

lemma recommend_body_length_both:
  assumes k: "''K'' \<in> set tts" and p: "''P'' \<in> set tts"
    and du: "distinct (map url all_results)"
    and nb: "list_all (\<lambda>c. \<not> (''K'' \<in> set (test_types c) \<and> ''P'' \<in> set (test_types c))) all_results"
  shows "length (recommend_body tts ctx all_results n) = min n (length all_results)"
proof -
  define srt where "srt = sorted_desc (scored_results tts ctx all_results)"
  define bk where "bk = filter (\<lambda>r. ''K'' \<in> set (test_types (res r))) srt"
  define bp where "bp = filter (\<lambda>r. ''P'' \<in> set (test_types (res r))) srt"
  define bo where "bo = filter (\<lambda>r. ''K'' \<notin> set (test_types (res r))
                                    \<and> ''P'' \<notin> set (test_types (res r))) srt"
  define recs where "recs = interleave n bk bp"
  have us: "urls (scored_results tts ctx all_results) = map url all_results"
    by (simp add: urls_def scored_results_def score_result_def Let_def comp_def)
  have dsu: "distinct (urls srt)"
    using du by (simp add: srt_def distinct_urls_sorted_desc us)
  then have ds: "distinct srt"
    by (simp add: urls_def distinct_map)
  have len: "length srt = length all_results"
    by (simp add: srt_def sorted_desc_def scored_results_def)
  have "res r \<in> set all_results" if "r \<in> set srt" for r
    using that by (auto simp: srt_def set_sorted_desc scored_results_def score_result_def Let_def)
  with nb have nbs: "list_all (\<lambda>r. \<not> (''K'' \<in> set (test_types (res r))
                                     \<and> ''P'' \<in> set (test_types (res r)))) srt"
    by (auto simp: list_all_iff)
  have b: "bucket_loop srt ([], [], []) = (bk, bp, bo)"
    using bucket_loop_filter [OF dsu, of "[]" "[]" "[]"]
    by (simp add: bk_def bp_def bo_def urls_def)
  have dk: "distinct bk" "distinct bp" "distinct bo"
    using ds by (simp_all add: bk_def bp_def bo_def)
  have dis: "set bk \<inter> set bp = {}"
    using nbs by (auto simp: bk_def bp_def list_all_iff)
  have lr: "length recs = min n (length bk + length bp)" and dr: "distinct recs"
    using interleave_exact [OF dk(1) dk(2) dis, of n] by (simp_all add: recs_def)
  have sr: "set recs \<subseteq> set bk \<union> set bp"
    by (simp add: recs_def interleave_subset)
  then have srs: "set recs \<subseteq> set srt"
    by (auto simp: bk_def bp_def)
  have "distinct (urls recs)"
    by (rule distinct_urls_part [OF dsu dr srs])
  then have uq: "unique_by_url recs = recs"
    by (rule unique_by_url_id)
  have "set recs \<inter> set bo = {}"
    using sr by (auto simp: bk_def bp_def bo_def)
  with dr dk(3) have "distinct (recs @ bo)"
    by simp
  moreover have "set (recs @ bo) \<subseteq> set srt"
    using srs by (auto simp: bo_def)
  ultimately have "distinct (urls (recs @ bo))"
    by (rule distinct_urls_part [OF dsu])
  then have bf: "backfill n bo recs = recs @ take (n - length recs) bo"
    by (rule backfill_take)
  have r: "recommend_body tts ctx all_results n = take n (sorted_desc (recs @ take (n - length recs) bo))"
    using b k p
    by (simp add: recommend_body_def Let_def srt_def [symmetric] final_recommendations_def
                  recs_def [symmetric] uq bf)
  have "length bk + length bp + length bo = length srt"
    unfolding bk_def bp_def bo_def by (rule bucket_sizes [OF nbs])
  with len have tot: "length bk + length bp + length bo = length all_results"
    by simp
  have "length (recommend_body tts ctx all_results n)
          = min n (length recs + min (n - length recs) (length bo))"
    by (simp add: r sorted_desc_def)
  also have "\<dots> = min n (length all_results)"
    using lr tot by arith
  finally show ?thesis .
qed


lemma selection_length:
  assumes dsu: "distinct (urls srt)"
    and dX: "distinct X" and sX: "set X \<subseteq> set srt"
    and dbo: "distinct bo" and sbo: "set bo \<subseteq> set srt"
    and dis: "set X \<inter> set bo = {}"
  shows "length (take n (sorted_desc (backfill n bo (unique_by_url (take n X)))))
           = min n (length X + length bo)"
proof -
  define recs where "recs = take n X"
  have dr: "distinct recs" and sr: "set recs \<subseteq> set X"
    using dX by (simp_all add: recs_def set_take_subset)
  have "distinct (urls recs)"
    using sr sX by (intro distinct_urls_part [OF dsu dr]) auto
  then have uq: "unique_by_url recs = recs"
    by (rule unique_by_url_id)
  have "distinct (recs @ bo)"
    using dr dbo sr dis by auto
  moreover have "set (recs @ bo) \<subseteq> set srt"
    using sr sX sbo by auto
  ultimately have "distinct (urls (recs @ bo))"
    by (rule distinct_urls_part [OF dsu])
  then have bf: "backfill n bo recs = recs @ take (n - length recs) bo"
    by (rule backfill_take)
  have "length (take n (sorted_desc (backfill n bo (unique_by_url recs))))
          = min n (length recs + min (n - length recs) (length bo))"
    by (simp add: uq bf sorted_desc_def)
  also have "\<dots> = min n (length X + length bo)"
    by (simp add: recs_def)
  finally show ?thesis
    by (simp only: recs_def)
qed

lemma recommend_body_length_exact:
  assumes du: "distinct (map url all_results)"
    and nb: "list_all (\<lambda>c. \<not> (''K'' \<in> set (test_types c) \<and> ''P'' \<in> set (test_types c))) all_results"
    and nk: "''K'' \<notin> set tts \<longrightarrow> list_all (\<lambda>c. ''K'' \<notin> set (test_types c)) all_results"
    and np: "''P'' \<notin> set tts \<longrightarrow> list_all (\<lambda>c. ''P'' \<notin> set (test_types c)) all_results"
  shows "length (recommend_body tts ctx all_results n) = min n (length all_results)"
proof (cases "''K'' \<in> set tts \<and> ''P'' \<in> set tts")
  case True
  then show ?thesis
    using recommend_body_length_both [OF _ _ du nb] by blast
next
  case False
  define srt where "srt = sorted_desc (scored_results tts ctx all_results)"
  define bk where "bk = filter (\<lambda>r. ''K'' \<in> set (test_types (res r))) srt"
  define bp where "bp = filter (\<lambda>r. ''P'' \<in> set (test_types (res r))) srt"
  define bo where "bo = filter (\<lambda>r. ''K'' \<notin> set (test_types (res r))
                                    \<and> ''P'' \<notin> set (test_types (res r))) srt"
  define X where "X = (if ''K'' \<in> set tts then bk else if ''P'' \<in> set tts then bp else [])"
  have us: "urls (scored_results tts ctx all_results) = map url all_results"
    by (simp add: urls_def scored_results_def score_result_def Let_def comp_def)
  have dsu: "distinct (urls srt)"
    using du by (simp add: srt_def distinct_urls_sorted_desc us)
  then have ds: "distinct srt"
    by (simp add: urls_def distinct_map)
  have len: "length srt = length all_results"
    by (simp add: srt_def sorted_desc_def scored_results_def)
  have mem: "res r \<in> set all_results" if "r \<in> set srt" for r
    using that by (auto simp: srt_def set_sorted_desc scored_results_def score_result_def Let_def)
  with nb have nbs: "list_all (\<lambda>r. \<not> (''K'' \<in> set (test_types (res r))
                                     \<and> ''P'' \<in> set (test_types (res r)))) srt"
    by (auto simp: list_all_iff)
  have ek: "bk = []" if "''K'' \<notin> set tts"
    using that nk mem by (auto simp: bk_def list_all_iff filter_empty_conv)
  have ep: "bp = []" if "''P'' \<notin> set tts"
    using that np mem by (auto simp: bp_def list_all_iff filter_empty_conv)
  have b: "bucket_loop srt ([], [], []) = (bk, bp, bo)"
    using bucket_loop_filter [OF dsu, of "[]" "[]" "[]"]
    by (simp add: bk_def bp_def bo_def urls_def)
  have fr: "final_recommendations tts n bk bp = take n X"
    using False ek ep by (auto simp: final_recommendations_def X_def)
  have r: "recommend_body tts ctx all_results n
             = take n (sorted_desc (backfill n bo (unique_by_url (take n X))))"
    using b by (simp add: recommend_body_def Let_def srt_def [symmetric] fr)
  have dX: "distinct X" and sX: "set X \<subseteq> set srt"
    using ds by (auto simp: X_def bk_def bp_def)
  have dbo: "distinct bo" and sbo: "set bo \<subseteq> set srt"
    using ds by (auto simp: bo_def)
  have dis: "set X \<inter> set bo = {}"
    by (auto simp: X_def bk_def bp_def bo_def)
  have "length bk + length bp + length bo = length srt"
    unfolding bk_def bp_def bo_def by (rule bucket_sizes [OF nbs])
  then have "length X + length bo = length all_results"
    using False ek ep len by (auto simp: X_def)
  with selection_length [OF dsu dX sX dbo sbo dis, of n] show ?thesis
    by (simp add: r)
qed

section \<open>The ranking call: results\<close>

text \<open>
  Claim C5. The final score stored with a candidate is
  0.35 times its similarity (the retrieved value, unchanged) plus 0.45 times the keyword
  score capped at 3.5 and divided by 3.5, plus 0.20 times the metadata score; this holds
  for the scoring of any candidate and for every entry the ranking call returns.
\<close>

theorem final_score_formula:
  "final_score (score_result tts ctx r) =
     0.35 * similarity_score r
     + 0.45 * (min (keyword_score (score_result tts ctx r)) 3.5 / 3.5)
     + 0.20 * metadata_score (score_result tts ctx r)
   \<and> res (score_result tts ctx r) = r
   \<and> (3.5 \<le> keyword_score (score_result tts ctx r) \<longrightarrow>
        final_score (score_result tts ctx r) =
          0.35 * similarity_score r + 0.45 + 0.20 * metadata_score (score_result tts ctx r))
   \<and> (\<forall>x \<in> set (recommend ctx all_results n).
        final_score x =
          0.35 * similarity_score (res x)
          + 0.45 * (min (keyword_score x) 3.5 / 3.5)
          + 0.20 * metadata_score x)"
proof -
  have one: "final_score (score_result t ctx r) =
     0.35 * similarity_score (res (score_result t ctx r))
     + 0.45 * (min (keyword_score (score_result t ctx r)) 3.5 / 3.5)
     + 0.20 * metadata_score (score_result t ctx r)" for t r
    by (simp add: score_result_def Let_def compute_final_score_def)
  have keep: "res (score_result t ctx r) = r" for t r
    by (simp add: score_result_def Let_def)
  have "final_score x =
          0.35 * similarity_score (res x)
          + 0.45 * (min (keyword_score x) 3.5 / 3.5)
          + 0.20 * metadata_score x"
    if "x \<in> set (recommend ctx all_results n)" for x
  proof -
    from that recommend_body_subset_distinct
      [of "default_test_types (llm_test_types ctx)" ctx all_results n]
    have "x \<in> set (scored_results (default_test_types (llm_test_types ctx)) ctx all_results)"
      by (auto simp: recommend_def)
    then obtain r where "x = score_result (default_test_types (llm_test_types ctx)) ctx r"
      by (auto simp: scored_results_def)
    then show ?thesis
      by (simp only: one)
  qed
  moreover have "final_score (score_result tts ctx r) =
          0.35 * similarity_score r + 0.45 + 0.20 * metadata_score (score_result tts ctx r)"
    if "3.5 \<le> keyword_score (score_result tts ctx r)"
    using that one [of tts r] by (simp add: keep min_def)
  ultimately show ?thesis
    using one [of tts r] by (simp add: keep)
qed

theorem final_score_formula_witness:
  "recommend ((bare_context [''K'', ''P'']) \<lparr>expanded_skills := [''java'']\<rparr>)
     [candidate ''Java Developer Test'' ''A'' [''K''] 0.8,
      candidate ''Team Collaboration Assessment'' ''B'' [''P''] 0.6] 2
   = [\<lparr>res = candidate ''Java Developer Test'' ''A'' [''K''] 0.8,
       final_score = 0.35 * 0.8 + 0.45 * (1.8 / 3.5) + 0.2 * 0.5,
       keyword_score = 1.8, metadata_score = 0.5\<rparr>,
      \<lparr>res = candidate ''Team Collaboration Assessment'' ''B'' [''P''] 0.6,
       final_score = 0.35 * 0.6 + 0.2 * 0.5,
       keyword_score = 0, metadata_score = 0.5\<rparr>]
   \<and> final_score (hd (recommend ((bare_context [''K'', ''P'']) \<lparr>expanded_skills := [''java'']\<rparr>)
     [candidate ''Java Developer Test'' ''A'' [''K''] 0.8,
      candidate ''Team Collaboration Assessment'' ''B'' [''P''] 0.6] 2))
       = 0.35 * similarity_score (res (hd (recommend ((bare_context [''K'', ''P'']) \<lparr>expanded_skills := [''java'']\<rparr>)
     [candidate ''Java Developer Test'' ''A'' [''K''] 0.8,
      candidate ''Team Collaboration Assessment'' ''B'' [''P''] 0.6] 2)))
         + 0.45 * (min (keyword_score (hd (recommend ((bare_context [''K'', ''P'']) \<lparr>expanded_skills := [''java'']\<rparr>)
     [candidate ''Java Developer Test'' ''A'' [''K''] 0.8,
      candidate ''Team Collaboration Assessment'' ''B'' [''P''] 0.6] 2))) 3.5 / 3.5)
         + 0.20 * metadata_score (hd (recommend ((bare_context [''K'', ''P'']) \<lparr>expanded_skills := [''java'']\<rparr>)
     [candidate ''Java Developer Test'' ''A'' [''K''] 0.8,
      candidate ''Team Collaboration Assessment'' ''B'' [''P''] 0.6] 2))"
proof
  show v: "recommend ((bare_context [''K'', ''P'']) \<lparr>expanded_skills := [''java'']\<rparr>)
     [candidate ''Java Developer Test'' ''A'' [''K''] 0.8,
      candidate ''Team Collaboration Assessment'' ''B'' [''P''] 0.6] 2
   = [\<lparr>res = candidate ''Java Developer Test'' ''A'' [''K''] 0.8,
       final_score = 0.35 * 0.8 + 0.45 * (1.8 / 3.5) + 0.2 * 0.5,
       keyword_score = 1.8, metadata_score = 0.5\<rparr>,
      \<lparr>res = candidate ''Team Collaboration Assessment'' ''B'' [''P''] 0.6,
       final_score = 0.35 * 0.6 + 0.2 * 0.5,
       keyword_score = 0, metadata_score = 0.5\<rparr>]"
    by code_simp
  then have "recommend ((bare_context [''K'', ''P'']) \<lparr>expanded_skills := [''java'']\<rparr>)
     [candidate ''Java Developer Test'' ''A'' [''K''] 0.8,
      candidate ''Team Collaboration Assessment'' ''B'' [''P''] 0.6] 2 \<noteq> []"
    by (simp only: list.distinct not_False_eq_True)
  then have m: "hd (recommend ((bare_context [''K'', ''P'']) \<lparr>expanded_skills := [''java'']\<rparr>)
     [candidate ''Java Developer Test'' ''A'' [''K''] 0.8,
      candidate ''Team Collaboration Assessment'' ''B'' [''P''] 0.6] 2)
      \<in> set (recommend ((bare_context [''K'', ''P'']) \<lparr>expanded_skills := [''java'']\<rparr>)
     [candidate ''Java Developer Test'' ''A'' [''K''] 0.8,
      candidate ''Team Collaboration Assessment'' ''B'' [''P''] 0.6] 2)"
    by (rule hd_in_set)
  note f = final_score_formula
      [of "[]" "((bare_context [''K'', ''P'']) \<lparr>expanded_skills := [''java'']\<rparr>)"
          "candidate [] [] [] 0"
          "[candidate ''Java Developer Test'' ''A'' [''K''] 0.8,
      candidate ''Team Collaboration Assessment'' ''B'' [''P''] 0.6]" 2]
  show "final_score (hd (recommend ((bare_context [''K'', ''P'']) \<lparr>expanded_skills := [''java'']\<rparr>)
     [candidate ''Java Developer Test'' ''A'' [''K''] 0.8,
      candidate ''Team Collaboration Assessment'' ''B'' [''P''] 0.6] 2))
       = 0.35 * similarity_score (res (hd (recommend ((bare_context [''K'', ''P'']) \<lparr>expanded_skills := [''java'']\<rparr>)
     [candidate ''Java Developer Test'' ''A'' [''K''] 0.8,
      candidate ''Team Collaboration Assessment'' ''B'' [''P''] 0.6] 2)))
         + 0.45 * (min (keyword_score (hd (recommend ((bare_context [''K'', ''P'']) \<lparr>expanded_skills := [''java'']\<rparr>)
     [candidate ''Java Developer Test'' ''A'' [''K''] 0.8,
      candidate ''Team Collaboration Assessment'' ''B'' [''P''] 0.6] 2))) 3.5 / 3.5)
         + 0.20 * metadata_score (hd (recommend ((bare_context [''K'', ''P'']) \<lparr>expanded_skills := [''java'']\<rparr>)
     [candidate ''Java Developer Test'' ''A'' [''K''] 0.8,
      candidate ''Team Collaboration Assessment'' ''B'' [''P''] 0.6] 2))"
    by (rule f [THEN conjunct2, THEN conjunct2, THEN conjunct2, rule_format, OF m])
qed

text \<open>
  Claim C7. In every result of the ranking call no URL occurs twice, and each entry has
  a final score at least as high as the entry after it; the result has at most
  \<open>n\<close> entries.
\<close>

theorem recommend_well_formed:
  "distinct (urls (recommend ctx all_results n))
   \<and> (\<forall>i. Suc i < length (recommend ctx all_results n) \<longrightarrow>
         final_score (recommend ctx all_results n ! i)
           \<ge> final_score (recommend ctx all_results n ! Suc i))
   \<and> length (recommend ctx all_results n) \<le> n"
proof (intro conjI allI impI)
  show "distinct (urls (recommend ctx all_results n))"
    using recommend_body_subset_distinct by (simp add: recommend_def)
  show "length (recommend ctx all_results n) \<le> n"
    by (simp add: recommend_def recommend_body_length)
  fix i
  assume i: "Suc i < length (recommend ctx all_results n)"
  have "sorted_wrt (\<lambda>a b. final_score a \<ge> final_score b) (recommend ctx all_results n)"
    by (simp add: recommend_def recommend_body_sorted)
  with i show "final_score (recommend ctx all_results n ! i)
                 \<ge> final_score (recommend ctx all_results n ! Suc i)"
    by (simp add: sorted_wrt_iff_nth_less)
qed

theorem recommend_well_formed_witness:
  "urls (recommend (bare_context [''K'', ''P''])
           [candidate ''a'' ''A'' [''K'', ''P''] 0.5, candidate ''b'' ''B'' [''P''] 0.9,
            candidate ''c'' ''C'' [''A''] 0.7, candidate ''d'' ''B'' [''K''] 0.2] 3)
     = [''A'', ''C'', ''B'']
   \<and> Suc 0 < length (recommend (bare_context [''K'', ''P''])
           [candidate ''a'' ''A'' [''K'', ''P''] 0.5, candidate ''b'' ''B'' [''P''] 0.9,
            candidate ''c'' ''C'' [''A''] 0.7, candidate ''d'' ''B'' [''K''] 0.2] 3)
   \<and> final_score (recommend (bare_context [''K'', ''P''])
           [candidate ''a'' ''A'' [''K'', ''P''] 0.5, candidate ''b'' ''B'' [''P''] 0.9,
            candidate ''c'' ''C'' [''A''] 0.7, candidate ''d'' ''B'' [''K''] 0.2] 3 ! 0)
       \<ge> final_score (recommend (bare_context [''K'', ''P''])
           [candidate ''a'' ''A'' [''K'', ''P''] 0.5, candidate ''b'' ''B'' [''P''] 0.9,
            candidate ''c'' ''C'' [''A''] 0.7, candidate ''d'' ''B'' [''K''] 0.2] 3 ! Suc 0)
   \<and> distinct (urls (recommend (bare_context [''K'', ''P''])
           [candidate ''a'' ''A'' [''K'', ''P''] 0.5, candidate ''b'' ''B'' [''P''] 0.9,
            candidate ''c'' ''C'' [''A''] 0.7, candidate ''d'' ''B'' [''K''] 0.2] 3))"
proof -
  have u: "urls (recommend (bare_context [''K'', ''P''])
           [candidate ''a'' ''A'' [''K'', ''P''] 0.5, candidate ''b'' ''B'' [''P''] 0.9,
            candidate ''c'' ''C'' [''A''] 0.7, candidate ''d'' ''B'' [''K''] 0.2] 3)
     = [''A'', ''C'', ''B'']"
    by code_simp
  then have "length (urls (recommend (bare_context [''K'', ''P''])
           [candidate ''a'' ''A'' [''K'', ''P''] 0.5, candidate ''b'' ''B'' [''P''] 0.9,
            candidate ''c'' ''C'' [''A''] 0.7, candidate ''d'' ''B'' [''K''] 0.2] 3)) = 3"
    by simp
  then have l: "Suc 0 < length (recommend (bare_context [''K'', ''P''])
           [candidate ''a'' ''A'' [''K'', ''P''] 0.5, candidate ''b'' ''B'' [''P''] 0.9,
            candidate ''c'' ''C'' [''A''] 0.7, candidate ''d'' ''B'' [''K''] 0.2] 3)"
    by (simp add: urls_def)
  note wf = recommend_well_formed
    [of "bare_context [''K'', ''P'']"
        "[candidate ''a'' ''A'' [''K'', ''P''] 0.5, candidate ''b'' ''B'' [''P''] 0.9,
            candidate ''c'' ''C'' [''A''] 0.7, candidate ''d'' ''B'' [''K''] 0.2]" 3]
  have d: "distinct (urls (recommend (bare_context [''K'', ''P''])
           [candidate ''a'' ''A'' [''K'', ''P''] 0.5, candidate ''b'' ''B'' [''P''] 0.9,
            candidate ''c'' ''C'' [''A''] 0.7, candidate ''d'' ''B'' [''K''] 0.2] 3))"
    by (rule wf [THEN conjunct1])
  have o: "final_score (recommend (bare_context [''K'', ''P''])
           [candidate ''a'' ''A'' [''K'', ''P''] 0.5, candidate ''b'' ''B'' [''P''] 0.9,
            candidate ''c'' ''C'' [''A''] 0.7, candidate ''d'' ''B'' [''K''] 0.2] 3 ! 0)
       \<ge> final_score (recommend (bare_context [''K'', ''P''])
           [candidate ''a'' ''A'' [''K'', ''P''] 0.5, candidate ''b'' ''B'' [''P''] 0.9,
            candidate ''c'' ''C'' [''A''] 0.7, candidate ''d'' ''B'' [''K''] 0.2] 3 ! Suc 0)"
    by (rule wf [THEN conjunct2, THEN conjunct1, rule_format, OF l])
  show ?thesis
    by (intro conjI; fact)
qed

text \<open>
  Claim C1, as stated, fails. When only P is required and the pool holds two
  Knowledge candidates, the personality bucket and the other bucket are empty and the
  result is empty, although the pool has two distinct URLs and one entry was requested.
  When K and P are required and the best candidate declares both, the interleaving takes
  it from both buckets and the deduplication leaves one entry where two were requested
  and three URLs exist.
\<close>

theorem result_length_counterexample:
  "recommend (bare_context [''P''])
     [candidate ''b'' ''B'' [''K''] 0.5, candidate ''d'' ''D'' [''K''] 0.4] 1 = []
   \<and> card (set (map url [candidate ''b'' ''B'' [''K''] 0.5, candidate ''d'' ''D'' [''K''] 0.4])) = 2
   \<and> length (recommend (bare_context [''P''])
        [candidate ''b'' ''B'' [''K''] 0.5, candidate ''d'' ''D'' [''K''] 0.4] 1)
      \<noteq> min 1 (card (set (map url
           [candidate ''b'' ''B'' [''K''] 0.5, candidate ''d'' ''D'' [''K''] 0.4])))
   \<and> length (recommend (bare_context [''K'', ''P''])
        [candidate ''a'' ''A'' [''K'', ''P''] 0.9, candidate ''b'' ''B'' [''K''] 0.5,
         candidate ''c'' ''C'' [''P''] 0.4] 2) = 1
   \<and> min 2 (card (set (map url
        [candidate ''a'' ''A'' [''K'', ''P''] 0.9, candidate ''b'' ''B'' [''K''] 0.5,
         candidate ''c'' ''C'' [''P''] 0.4]))) = 2"
proof -
  have a: "recommend (bare_context [''P''])
     [candidate ''b'' ''B'' [''K''] 0.5, candidate ''d'' ''D'' [''K''] 0.4] 1 = []"
    by code_simp
  have b: "card (set (map url [candidate ''b'' ''B'' [''K''] 0.5, candidate ''d'' ''D'' [''K''] 0.4])) = 2"
    by (simp add: candidate_def)
  have c: "length (recommend (bare_context [''K'', ''P''])
        [candidate ''a'' ''A'' [''K'', ''P''] 0.9, candidate ''b'' ''B'' [''K''] 0.5,
         candidate ''c'' ''C'' [''P''] 0.4] 2) = 1"
    by code_simp
  have d: "min 2 (card (set (map url
        [candidate ''a'' ''A'' [''K'', ''P''] 0.9, candidate ''b'' ''B'' [''K''] 0.5,
         candidate ''c'' ''C'' [''P''] 0.4]))) = 2"
    by (simp add: candidate_def)
  show ?thesis
    by (simp only: a b c d) simp
qed

text \<open>
  Claim C1, amended. The result of the ranking call has at most
  min(n, number of distinct URLs in the pool) entries. It has exactly that many whenever
  the URLs of the pool are pairwise distinct, no candidate declares both K and P, and no
  candidate declares a category among K and P that the completed required test types
  leave out. In particular this is so whenever the required test types of the query are
  empty or contain K (K and P are then both required), the URLs are pairwise distinct
  and no candidate declares both K and P.
\<close>

theorem result_length_bound:
  "length (recommend ctx all_results n) \<le> min n (card (set (map url all_results)))
   \<and> (distinct (map url all_results)
        \<and> list_all (\<lambda>c. \<not> (''K'' \<in> set (test_types c) \<and> ''P'' \<in> set (test_types c))) all_results
        \<and> (''K'' \<notin> set (default_test_types (llm_test_types ctx)) \<longrightarrow>
              list_all (\<lambda>c. ''K'' \<notin> set (test_types c)) all_results)
        \<and> (''P'' \<notin> set (default_test_types (llm_test_types ctx)) \<longrightarrow>
              list_all (\<lambda>c. ''P'' \<notin> set (test_types c)) all_results)
      \<longrightarrow> length (recommend ctx all_results n) = min n (card (set (map url all_results))))
   \<and> ((llm_test_types ctx = [] \<or> ''K'' \<in> set (llm_test_types ctx))
        \<and> distinct (map url all_results)
        \<and> list_all (\<lambda>c. \<not> (''K'' \<in> set (test_types c) \<and> ''P'' \<in> set (test_types c))) all_results
      \<longrightarrow> length (recommend ctx all_results n) = min n (card (set (map url all_results))))"
proof (intro conjI impI)
  let ?tts = "default_test_types (llm_test_types ctx)"
  let ?r = "recommend_body ?tts ctx all_results n"
  show "length (recommend ctx all_results n) \<le> min n (card (set (map url all_results)))"
  proof -
    have "distinct (urls ?r)"
      using recommend_body_subset_distinct by simp
    then have "card (set (urls ?r)) = length (urls ?r)"
      by (rule distinct_card)
    then have "length ?r = card (set (urls ?r))"
      by (simp add: urls_def)
    also have "\<dots> \<le> card (set (map url all_results))"
      using recommend_body_urls_subset [of ?tts ctx all_results n]
      by (intro card_mono) auto
    finally have "length ?r \<le> card (set (map url all_results))" .
    moreover have "length ?r \<le> n"
      by (rule recommend_body_length)
    ultimately show ?thesis
      by (simp add: recommend_def)
  qed
  show "length (recommend ctx all_results n) = min n (card (set (map url all_results)))"
    if h: "distinct (map url all_results)
        \<and> list_all (\<lambda>c. \<not> (''K'' \<in> set (test_types c) \<and> ''P'' \<in> set (test_types c))) all_results
        \<and> (''K'' \<notin> set ?tts \<longrightarrow> list_all (\<lambda>c. ''K'' \<notin> set (test_types c)) all_results)
        \<and> (''P'' \<notin> set ?tts \<longrightarrow> list_all (\<lambda>c. ''P'' \<notin> set (test_types c)) all_results)"
  proof -
    from h have "card (set (map url all_results)) = length all_results"
      using distinct_card [of "map url all_results"] by simp
    moreover from h have "length ?r = min n (length all_results)"
      by (intro recommend_body_length_exact) blast+
    ultimately show ?thesis
      by (simp add: recommend_def)
  qed
  show "length (recommend ctx all_results n) = min n (card (set (map url all_results)))"
    if h: "(llm_test_types ctx = [] \<or> ''K'' \<in> set (llm_test_types ctx))
        \<and> distinct (map url all_results)
        \<and> list_all (\<lambda>c. \<not> (''K'' \<in> set (test_types c) \<and> ''P'' \<in> set (test_types c))) all_results"
  proof -
    from h have kp: "''K'' \<in> set ?tts" "''P'' \<in> set ?tts"
      by (auto simp: default_test_types_def)
    from h have "card (set (map url all_results)) = length all_results"
      using distinct_card [of "map url all_results"] by simp
    moreover from h kp have "length ?r = min n (length all_results)"
      by (intro recommend_body_length_both) blast+
    ultimately show ?thesis
      by (simp add: recommend_def)
  qed
qed

theorem result_length_bound_witness:
  "length (recommend (bare_context [''K''])
        [candidate ''a'' ''A'' [''K''] 0.9, candidate ''b'' ''B'' [''P''] 0.5,
         candidate ''c'' ''C'' [''A''] 0.4] 2)
     = min 2 (card (set (map url
        [candidate ''a'' ''A'' [''K''] 0.9, candidate ''b'' ''B'' [''P''] 0.5,
         candidate ''c'' ''C'' [''A''] 0.4])))
   \<and> length (recommend (bare_context [''K''])
        [candidate ''a'' ''A'' [''K''] 0.9, candidate ''b'' ''B'' [''P''] 0.5,
         candidate ''c'' ''C'' [''A''] 0.4] 2) = 2
   \<and> length (recommend (bare_context [''P''])
        [candidate ''b'' ''B'' [''P''] 0.5, candidate ''c'' ''C'' [''A''] 0.4] 5)
     = min 5 (card (set (map url
        [candidate ''b'' ''B'' [''P''] 0.5, candidate ''c'' ''C'' [''A''] 0.4])))
   \<and> length (recommend (bare_context [''P''])
        [candidate ''b'' ''B'' [''P''] 0.5, candidate ''c'' ''C'' [''A''] 0.4] 5) = 2"
proof -
  have t1: "llm_test_types (bare_context [''K'']) = [] \<or> ''K'' \<in> set (llm_test_types (bare_context [''K'']))"
    by (simp add: bare_context_def)
  have d1: "distinct (map url [candidate ''a'' ''A'' [''K''] 0.9, candidate ''b'' ''B'' [''P''] 0.5,
         candidate ''c'' ''C'' [''A''] 0.4])"
    by (simp add: candidate_def)
  have n1: "list_all (\<lambda>c. \<not> (''K'' \<in> set (test_types c) \<and> ''P'' \<in> set (test_types c)))
        [candidate ''a'' ''A'' [''K''] 0.9, candidate ''b'' ''B'' [''P''] 0.5,
         candidate ''c'' ''C'' [''A''] 0.4]"
    by (simp add: candidate_def)
  have a: "length (recommend (bare_context [''K''])
        [candidate ''a'' ''A'' [''K''] 0.9, candidate ''b'' ''B'' [''P''] 0.5,
         candidate ''c'' ''C'' [''A''] 0.4] 2)
     = min 2 (card (set (map url
        [candidate ''a'' ''A'' [''K''] 0.9, candidate ''b'' ''B'' [''P''] 0.5,
         candidate ''c'' ''C'' [''A''] 0.4])))"
    using result_length_bound [of "bare_context [''K'']" "[candidate ''a'' ''A'' [''K''] 0.9, candidate ''b'' ''B'' [''P''] 0.5,
         candidate ''c'' ''C'' [''A''] 0.4]" 2] t1 d1 n1
    by blast
  have d2: "distinct (map url [candidate ''b'' ''B'' [''P''] 0.5, candidate ''c'' ''C'' [''A''] 0.4])"
    by (simp add: candidate_def)
  have n2: "list_all (\<lambda>c. \<not> (''K'' \<in> set (test_types c) \<and> ''P'' \<in> set (test_types c)))
        [candidate ''b'' ''B'' [''P''] 0.5, candidate ''c'' ''C'' [''A''] 0.4]"
    by (simp add: candidate_def)
  have k2: "''K'' \<notin> set (default_test_types (llm_test_types (bare_context [''P'']))) \<longrightarrow>
              list_all (\<lambda>c. ''K'' \<notin> set (test_types c)) [candidate ''b'' ''B'' [''P''] 0.5, candidate ''c'' ''C'' [''A''] 0.4]"
    by (simp add: candidate_def)
  have p2: "''P'' \<notin> set (default_test_types (llm_test_types (bare_context [''P'']))) \<longrightarrow>
              list_all (\<lambda>c. ''P'' \<notin> set (test_types c)) [candidate ''b'' ''B'' [''P''] 0.5, candidate ''c'' ''C'' [''A''] 0.4]"
    by (simp add: bare_context_def default_test_types_def)
  have b: "length (recommend (bare_context [''P''])
        [candidate ''b'' ''B'' [''P''] 0.5, candidate ''c'' ''C'' [''A''] 0.4] 5)
     = min 5 (card (set (map url
        [candidate ''b'' ''B'' [''P''] 0.5, candidate ''c'' ''C'' [''A''] 0.4])))"
    using result_length_bound [of "bare_context [''P'']" "[candidate ''b'' ''B'' [''P''] 0.5, candidate ''c'' ''C'' [''A''] 0.4]" 5] d2 n2 k2 p2
    by blast
  have c: "length (recommend (bare_context [''K''])
        [candidate ''a'' ''A'' [''K''] 0.9, candidate ''b'' ''B'' [''P''] 0.5,
         candidate ''c'' ''C'' [''A''] 0.4] 2) = 2"
    by code_simp
  have d: "length (recommend (bare_context [''P''])
        [candidate ''b'' ''B'' [''P''] 0.5, candidate ''c'' ''C'' [''A''] 0.4] 5) = 2"
    by code_simp
  show ?thesis
    by (intro conjI; fact)
qed

text \<open>
  Claim C3, as stated, fails. For the required test types K and A (K without P) the
  call differs from the call with the required types K and P: a candidate of type A
  earns the 0.2 for a required type in the first call only, and the order of the result
  changes.
\<close>

theorem knowledge_and_ability_counterexample:
  "''K'' \<in> set [''K'', ''A''] \<and> ''P'' \<notin> set [''K'', ''A'']
   \<and> get_recommendations_local (bare_context [''K'', ''A''])
        [candidate ''x'' ''X'' [''A''] 0.9, candidate ''y'' ''Y'' [''K''] 0.64] 2 = [''X'', ''Y'']
   \<and> get_recommendations_local (bare_context [''K'', ''P''])
        [candidate ''x'' ''X'' [''A''] 0.9, candidate ''y'' ''Y'' [''K''] 0.64] 2 = [''Y'', ''X'']
   \<and> recommend (bare_context [''K'', ''A''])
        [candidate ''x'' ''X'' [''A''] 0.9, candidate ''y'' ''Y'' [''K''] 0.64] 2
      \<noteq> recommend (bare_context [''K'', ''P''])
        [candidate ''x'' ''X'' [''A''] 0.9, candidate ''y'' ''Y'' [''K''] 0.64] 2"
proof -
  have a: "get_recommendations_local (bare_context [''K'', ''A''])
        [candidate ''x'' ''X'' [''A''] 0.9, candidate ''y'' ''Y'' [''K''] 0.64] 2 = [''X'', ''Y'']"
    by code_simp
  have b: "get_recommendations_local (bare_context [''K'', ''P''])
        [candidate ''x'' ''X'' [''A''] 0.9, candidate ''y'' ''Y'' [''K''] 0.64] 2 = [''Y'', ''X'']"
    by code_simp
  have "recommend (bare_context [''K'', ''A''])
        [candidate ''x'' ''X'' [''A''] 0.9, candidate ''y'' ''Y'' [''K''] 0.64] 2
      \<noteq> recommend (bare_context [''K'', ''P''])
        [candidate ''x'' ''X'' [''A''] 0.9, candidate ''y'' ''Y'' [''K''] 0.64] 2"
  proof
    assume eq: "recommend (bare_context [''K'', ''A''])
        [candidate ''x'' ''X'' [''A''] 0.9, candidate ''y'' ''Y'' [''K''] 0.64] 2
      = recommend (bare_context [''K'', ''P''])
        [candidate ''x'' ''X'' [''A''] 0.9, candidate ''y'' ''Y'' [''K''] 0.64] 2"
    have "get_recommendations_local (bare_context [''K'', ''A''])
        [candidate ''x'' ''X'' [''A''] 0.9, candidate ''y'' ''Y'' [''K''] 0.64] 2
      = get_recommendations_local (bare_context [''K'', ''P''])
        [candidate ''x'' ''X'' [''A''] 0.9, candidate ''y'' ''Y'' [''K''] 0.64] 2"
      unfolding get_recommendations_local_def by (rule arg_cong [OF eq])
    then have "[''X'', ''Y''] = [''Y'', ''X'']"
      by (simp only: a b)
    then show False
      by simp
  qed
  with a b show ?thesis
    by simp
qed

text \<open>
  Claim C3, amended. When the required test types contain K and not P, the call gives
  the same result as the call with P appended to those types, which is the call with K
  and P when K is the only required type. After the completion of the required types,
  K never stands without P, so with K in the required types the selection is the
  interleaving, never the first \<open>n\<close> entries of the knowledge bucket alone.
\<close>

theorem knowledge_adds_personality:
  "(''K'' \<in> set tts \<and> ''P'' \<notin> set tts \<longrightarrow>
      recommend (ctx\<lparr>llm_test_types := tts\<rparr>) all_results n
        = recommend (ctx\<lparr>llm_test_types := tts @ [''P'']\<rparr>) all_results n)
   \<and> (set tts = {''K''} \<longrightarrow>
      recommend (ctx\<lparr>llm_test_types := tts\<rparr>) all_results n
        = recommend (ctx\<lparr>llm_test_types := [''K'', ''P'']\<rparr>) all_results n)
   \<and> (''K'' \<in> set (default_test_types tts) \<longrightarrow> ''P'' \<in> set (default_test_types tts))
   \<and> (''K'' \<in> set tts \<longrightarrow>
      final_recommendations (default_test_types tts) n best_k best_p = interleave n best_k best_p)"
proof (intro conjI impI)
  show "recommend (ctx\<lparr>llm_test_types := tts\<rparr>) all_results n
        = recommend (ctx\<lparr>llm_test_types := tts @ [''P'']\<rparr>) all_results n"
    if "''K'' \<in> set tts \<and> ''P'' \<notin> set tts"
  proof -
    from that have "tts \<noteq> []" by auto
    with that have "default_test_types tts = tts @ [''P'']"
      "default_test_types (tts @ [''P'']) = tts @ [''P'']"
      by (simp_all add: default_test_types_def)
    then show ?thesis
      by (simp add: recommend_as_body)
  qed
  show "recommend (ctx\<lparr>llm_test_types := tts\<rparr>) all_results n
        = recommend (ctx\<lparr>llm_test_types := [''K'', ''P'']\<rparr>) all_results n"
    if k: "set tts = {''K''}"
  proof -
    have kin: "''K'' \<in> set tts" and pnot: "''P'' \<notin> set tts"
      by (simp_all add: k)
    from kin have ne: "tts \<noteq> []"
      by (cases tts) simp_all
    have d1: "default_test_types tts = tts @ [''P'']"
      using kin pnot ne by (simp add: default_test_types_def)
    have d2: "default_test_types [''K'', ''P''] = [''K'', ''P'']"
      by (simp add: default_test_types_def)
    have "set (tts @ [''P'']) = set [''K'', ''P'']"
      by (simp add: k insert_commute)
    then have b: "recommend_body (tts @ [''P'']) ctx all_results n
                     = recommend_body [''K'', ''P''] ctx all_results n"
      by (rule recommend_body_same_set)
    show ?thesis
      by (simp only: recommend_as_body d1 d2 b)
  qed
  show "''P'' \<in> set (default_test_types tts)" if "''K'' \<in> set (default_test_types tts)"
    using that by (auto simp: default_test_types_def split: if_splits)
  show "final_recommendations (default_test_types tts) n best_k best_p = interleave n best_k best_p"
    if "''K'' \<in> set tts"
    using that by (auto simp: final_recommendations_def default_test_types_def)
qed

theorem knowledge_adds_personality_witness:
  "''K'' \<in> set [''K'', ''A''] \<and> ''P'' \<notin> set [''K'', ''A'']
   \<and> recommend ((bare_context []) \<lparr>llm_test_types := [''K'', ''A'']\<rparr>)
        [candidate ''x'' ''X'' [''A''] 0.9, candidate ''y'' ''Y'' [''K''] 0.64] 2
     = recommend ((bare_context []) \<lparr>llm_test_types := [''K'', ''A''] @ [''P'']\<rparr>)
        [candidate ''x'' ''X'' [''A''] 0.9, candidate ''y'' ''Y'' [''K''] 0.64] 2
   \<and> set [''K''] = {''K''}
   \<and> recommend ((bare_context []) \<lparr>llm_test_types := [''K'']\<rparr>)
        [candidate ''x'' ''X'' [''A''] 0.9, candidate ''y'' ''Y'' [''K''] 0.64] 2
     = recommend ((bare_context []) \<lparr>llm_test_types := [''K'', ''P'']\<rparr>)
        [candidate ''x'' ''X'' [''A''] 0.9, candidate ''y'' ''Y'' [''K''] 0.64] 2
   \<and> urls (recommend ((bare_context []) \<lparr>llm_test_types := [''K'']\<rparr>)
        [candidate ''x'' ''X'' [''A''] 0.9, candidate ''y'' ''Y'' [''K''] 0.64] 2) = [''Y'', ''X'']"
proof -
  have a: "''K'' \<in> set [''K'', ''A''] \<and> ''P'' \<notin> set [''K'', ''A'']"
    by simp
  have b: "set [''K''] = {''K''}"
    by simp
  have c: "urls (recommend ((bare_context []) \<lparr>llm_test_types := [''K'']\<rparr>)
        [candidate ''x'' ''X'' [''A''] 0.9, candidate ''y'' ''Y'' [''K''] 0.64] 2) = [''Y'', ''X'']"
    by code_simp
  note kap = knowledge_adds_personality
    [of _ "bare_context []"
        "[candidate ''x'' ''X'' [''A''] 0.9, candidate ''y'' ''Y'' [''K''] 0.64]" 2 "[]" "[]"]
  have d: "recommend ((bare_context []) \<lparr>llm_test_types := [''K'', ''A'']\<rparr>)
        [candidate ''x'' ''X'' [''A''] 0.9, candidate ''y'' ''Y'' [''K''] 0.64] 2
     = recommend ((bare_context []) \<lparr>llm_test_types := [''K'', ''A''] @ [''P'']\<rparr>)
        [candidate ''x'' ''X'' [''A''] 0.9, candidate ''y'' ''Y'' [''K''] 0.64] 2"
    by (rule kap [THEN conjunct1, rule_format, OF a])
  have e: "recommend ((bare_context []) \<lparr>llm_test_types := [''K'']\<rparr>)
        [candidate ''x'' ''X'' [''A''] 0.9, candidate ''y'' ''Y'' [''K''] 0.64] 2
     = recommend ((bare_context []) \<lparr>llm_test_types := [''K'', ''P'']\<rparr>)
        [candidate ''x'' ''X'' [''A''] 0.9, candidate ''y'' ''Y'' [''K''] 0.64] 2"
    by (rule kap [THEN conjunct2, THEN conjunct1, rule_format, OF b])
  have a1: "''K'' \<in> set [''K'', ''A'']" and a2: "''P'' \<notin> set [''K'', ''A'']"
    using a by blast+
  show ?thesis
    by (intro conjI; fact)
qed

end
